theory Spec2Isabelle
  imports Main "HOL-Library.Multiset"
begin

section \<open>JavaScript strings and the built-ins the code calls\<close>

text \<open>
  A JavaScript string is a sequence of UTF-16 code units; each unit is a number below
  \<open>0x10000\<close>. Code points and glyph indices are non-negative integers.
\<close>

type_synonym jsstring = "nat list"

definition lit :: "string \<Rightarrow> jsstring" where
  "lit s = map of_char s"

datatype JsError = RangeError | TypeError

text \<open>A number that may be \<open>NaN\<close> (what \<open>charCodeAt(0)\<close> gives on the empty string).\<close>

datatype JsNumber = Number nat | NaN

definition isLeadSurrogate :: "nat \<Rightarrow> bool" where
  "isLeadSurrogate c \<longleftrightarrow> 0xD800 \<le> c \<and> c \<le> 0xDBFF"

definition isTrailSurrogate :: "nat \<Rightarrow> bool" where
  "isTrailSurrogate c \<longleftrightarrow> 0xDC00 \<le> c \<and> c \<le> 0xDFFF"

text \<open>\<open>String.fromCharCode(u)\<close>: one code unit, the argument truncated to 16 bits.\<close>

definition fromCharCode :: "nat \<Rightarrow> jsstring" where
  "fromCharCode u = [u mod 0x10000]"

text \<open>\<open>String.fromCodePoint(u)\<close>: throws RangeError above \<open>0x10FFFF\<close>, yields a surrogate
  pair above the Basic Multilingual Plane.\<close>

definition fromCodePoint :: "nat \<Rightarrow> JsError + jsstring" where
  "fromCodePoint u =
     (if u > 0x10FFFF then Inl RangeError
      else if u \<le> 0xFFFF then Inr [u]
      else Inr [0xD800 + (u - 0x10000) div 0x400, 0xDC00 + (u - 0x10000) mod 0x400])"

text \<open>\<open>s.codePointAt(0) ?? s.charCodeAt(0)\<close>: the first code point, a surrogate pair read
  as one value; \<open>NaN\<close> on the empty string.\<close>

fun codePointAt0 :: "jsstring \<Rightarrow> JsNumber" where
  "codePointAt0 [] = NaN"
| "codePointAt0 [a] = Number a"
| "codePointAt0 (a # b # rest) =
     (if isLeadSurrogate a \<and> isTrailSurrogate b
      then Number (0x10000 + (a - 0xD800) * 0x400 + (b - 0xDC00))
      else Number a)"

text \<open>\<open>Array.from(s)\<close>: the string iterator, one element per code point; a surrogate
  that is not part of a pair is an element of its own.\<close>

fun arrayFrom :: "jsstring \<Rightarrow> jsstring list" where
  "arrayFrom [] = []"
| "arrayFrom [a] = [[a]]"
| "arrayFrom (a # b # rest) =
     (if isLeadSurrogate a \<and> isTrailSurrogate b
      then [a, b] # arrayFrom rest
      else [a] # arrayFrom (b # rest))"

text \<open>The code units that \<open>trim\<close> strips and that \<open>\s\<close> matches: WhiteSpace and
  LineTerminator of ECMAScript.\<close>

definition isWhiteSpace :: "nat \<Rightarrow> bool" where
  "isWhiteSpace c \<longleftrightarrow>
     (0x09 \<le> c \<and> c \<le> 0x0D) \<or> c = 0x20 \<or> c = 0xA0 \<or> c = 0x1680 \<or>
     (0x2000 \<le> c \<and> c \<le> 0x200A) \<or> c = 0x2028 \<or> c = 0x2029 \<or> c = 0x202F \<or>
     c = 0x205F \<or> c = 0x3000 \<or> c = 0xFEFF"

definition trim :: "jsstring \<Rightarrow> jsstring" where
  "trim s = rev (dropWhile isWhiteSpace (rev (dropWhile isWhiteSpace s)))"

text \<open>\<open>s.replace(/\s+/g, '')\<close>.\<close>

definition stripWhiteSpace :: "jsstring \<Rightarrow> jsstring" where
  "stripWhiteSpace s = filter (\<lambda>c. \<not> isWhiteSpace c) s"

text \<open>The decimal rendering of a non-negative integer, as in a template literal and in
  \<open>JSON.stringify\<close>.\<close>

function decimal :: "nat \<Rightarrow> jsstring" where
  "decimal n = (if n < 10 then [48 + n] else decimal (n div 10) @ [48 + n mod 10])"
  by pat_completeness auto
termination
  by (relation "measure id") auto

declare decimal.simps [simp del]

definition hexDigit :: "nat \<Rightarrow> nat" where
  "hexDigit d = (if d < 10 then 48 + d else 87 + d)"

definition hex4 :: "nat \<Rightarrow> jsstring" where
  "hex4 c = [hexDigit (c div 0x1000 mod 16), hexDigit (c div 0x100 mod 16),
             hexDigit (c div 0x10 mod 16), hexDigit (c mod 16)]"

fun join :: "jsstring \<Rightarrow> jsstring list \<Rightarrow> jsstring" where
  "join sep [] = []"
| "join sep [x] = x"
| "join sep (x # y # rest) = x @ sep @ join sep (y # rest)"

text \<open>\<open>JSON.stringify\<close> on a string: quotes (0x22), the two-character escapes (a
  backslash, 0x5C, and a letter), the four-digit hexadecimal escape for the other
  control characters and for a surrogate outside a pair.\<close>

definition jsonEscape :: "jsstring \<Rightarrow> jsstring" where
  "jsonEscape cp =
     (case cp of
        [c] \<Rightarrow>
          (if c = 0x08 then [0x5C, 0x62] else if c = 0x09 then [0x5C, 0x74]
           else if c = 0x0A then [0x5C, 0x6E] else if c = 0x0C then [0x5C, 0x66]
           else if c = 0x0D then [0x5C, 0x72] else if c = 0x22 then [0x5C, 0x22]
           else if c = 0x5C then [0x5C, 0x5C]
           else if c < 0x20 \<or> isLeadSurrogate c \<or> isTrailSurrogate c
             then [0x5C, 0x75] @ hex4 c
           else [c])
      | _ \<Rightarrow> cp)"

definition jsonString :: "jsstring \<Rightarrow> jsstring" where
  "jsonString s = [0x22] @ concat (map jsonEscape (arrayFrom s)) @ [0x22]"

text \<open>\<open>JSON.stringify(items, null, 2)\<close> on an array whose serialised elements are
  \<open>items\<close>, at nesting depth 0.\<close>

definition jsonArray :: "jsstring list \<Rightarrow> jsstring" where
  "jsonArray items =
     (if items = [] then lit ''[]''
      else lit ''['' @ [0x0A] @ lit ''  '' @ join ([0x2C, 0x0A] @ lit ''  '') items
           @ [0x0A] @ lit '']'')"

section \<open>types.ts and the parsed font\<close>

record FontGlyph =
  unicode :: nat
  char :: jsstring
  name :: jsstring
  hasPath :: bool

text \<open>A name field of the result holds a string, or the localized-name object itself when
  that object has no usable \<open>en\<close> entry.\<close>

record LocalizedName =
  en :: "jsstring option"

datatype NameValue = Str jsstring | Obj LocalizedName

record FontInfo =
  familyName :: NameValue
  subfamilyName :: NameValue
  fullName :: NameValue
  postScriptName :: NameValue
  glyphCount :: nat
  glyphs :: "FontGlyph list"
  extractedText :: jsstring

datatype OutputFormat = FormatText | FormatJson | FormatArray

text \<open>An absent option is \<open>None\<close>; the defaults are filled in by the function that reads
  them. The custom filter is a function of the character and the code point.\<close>

record ExtractOptions =
  printableOnly :: "bool option"
  includeControlChars :: "bool option"
  filterFn :: "(jsstring \<Rightarrow> nat \<Rightarrow> bool) option"
  outputFormat :: "OutputFormat option"

text \<open>What the font parser hands over: per glyph an optional code point, an optional
  name and optional outline data; per name field an optional localized name.\<close>

datatype Path = Path

record Glyph =
  glyph_unicode :: "nat option"
  glyph_name :: "jsstring option"
  glyph_path :: "Path option"

record FontNames =
  names_fontFamily :: "LocalizedName option"
  names_fontSubfamily :: "LocalizedName option"
  names_fullName :: "LocalizedName option"
  names_postScriptName :: "LocalizedName option"

record Font =
  font_names :: FontNames
  font_glyphs :: "Glyph list"

text \<open>\<open>x?.en || x\<close>: the English entry when it is a non-empty string, else the object
  \<open>x\<close> itself, else nothing (so that the next \<open>||\<close> operand is taken).\<close>

definition enOrSelf :: "LocalizedName option \<Rightarrow> NameValue option" where
  "enOrSelf x =
     (case x of
        None \<Rightarrow> None
      | Some l \<Rightarrow> (case en l of
                     None \<Rightarrow> Some (Obj l)
                   | Some s \<Rightarrow> if s \<noteq> [] then Some (Str s) else Some (Obj l)))"

text \<open>A value inside a template literal.\<close>

definition toStringValue :: "NameValue \<Rightarrow> jsstring" where
  "toStringValue v = (case v of Str s \<Rightarrow> s | Obj l \<Rightarrow> lit ''[object Object]'')"

text \<open>\<open>v.replace(/\s+/g, '')\<close>: an object has no \<open>replace\<close> method.\<close>

definition replaceWhiteSpace :: "NameValue \<Rightarrow> JsError + NameValue" where
  "replaceWhiteSpace v =
     (case v of Str s \<Rightarrow> Inr (Str (stripWhiteSpace s)) | Obj l \<Rightarrow> Inl TypeError)"

text \<open>\<open>glyph.name || `glyph_${i}`\<close>.\<close>

definition glyphNameOr :: "Glyph \<Rightarrow> nat \<Rightarrow> jsstring" where
  "glyphNameOr glyph i =
     (case glyph_name glyph of
        None \<Rightarrow> lit ''glyph_'' @ decimal i
      | Some n \<Rightarrow> if n \<noteq> [] then n else lit ''glyph_'' @ decimal i)"

text \<open>\<open>JSON.stringify\<close> of one FontGlyph inside the array (nesting depth 1).\<close>

definition jsonFontGlyph :: "FontGlyph \<Rightarrow> jsstring" where
  "jsonFontGlyph g =
     lit ''{'' @ [0x0A] @ lit ''    ''
     @ join ([0x2C, 0x0A] @ lit ''    '')
         [jsonString (lit ''unicode'') @ lit '': '' @ decimal (unicode g),
          jsonString (lit ''char'') @ lit '': '' @ jsonString (char g),
          jsonString (lit ''name'') @ lit '': '' @ jsonString (name g),
          jsonString (lit ''hasPath'') @ lit '': ''
            @ (if hasPath g then lit ''true'' else lit ''false'')]
     @ [0x0A] @ lit ''  '' @ lit ''}''"

section \<open>font-extractor.ts\<close>

text \<open>\<open>isPrintableChar\<close>, with \<open>ch\<close> for its parameter \<open>char\<close> and \<open>u\<close> for
  \<open>unicode\<close>. The parameter \<open>char\<close> is not read; the fallback converts \<open>unicode\<close> with \<open>String.fromCharCode\<close>, which never throws.\<close>

definition isPrintableChar :: "jsstring \<Rightarrow> nat \<Rightarrow> bool" where
  "isPrintableChar ch u =
     (if u \<ge> 0x20 \<and> u \<le> 0x7E then True
      else if u \<ge> 0xA0 \<and> u \<le> 0xFF then True
      else if u \<ge> 0x4E00 \<and> u \<le> 0x9FFF then True
      else if u \<ge> 0x3400 \<and> u \<le> 0x4DBF then True
      else if u \<ge> 0x20000 \<and> u \<le> 0x2A6DF then True
      else if u \<ge> 0x0100 \<and> u \<le> 0x017F then True
      else if u \<ge> 0x0180 \<and> u \<le> 0x024F then True
      else if u \<ge> 0x0370 \<and> u \<le> 0x03FF then True
      else if u \<ge> 0x0400 \<and> u \<le> 0x04FF then True
      else if u \<ge> 0x3040 \<and> u \<le> 0x309F then True
      else if u \<ge> 0x30A0 \<and> u \<le> 0x30FF then True
      else if u \<ge> 0xAC00 \<and> u \<le> 0xD7AF then True
      else if u \<ge> 0x1F300 \<and> u \<le> 0x1F9FF then True
      else if u > 0x1F \<and> \<not> (u \<ge> 0xD800 \<and> u \<le> 0xDFFF) then
        (let charCode = fromCharCode u
         in if trim charCode \<noteq> [] \<or> u = 0x20 then True else False)
      else False)"

text \<open>The conversion inside the \<open>try\<close> block of the glyph loop; \<open>Inl\<close> is the caught
  exception, after which the loop continues with the next glyph.\<close>

definition convertCodePoint :: "nat \<Rightarrow> JsError + jsstring" where
  "convertCodePoint u =
     (if u \<le> 0xFFFF then Inr (fromCharCode u) else fromCodePoint u)"

text \<open>One pass of the loop body of \<open>extractTextFromFont\<close> on glyph \<open>i\<close>. The state is the
  pair of \<open>glyphs\<close> and \<open>textSet\<close>; every \<open>continue\<close> returns it unchanged. The warning
  written to the console in the \<open>catch\<close> branch is not part of any returned value.
  Local variables are abbreviated where a field of a record has the name: \<open>u\<close> is
  \<open>unicode\<close>, \<open>ch\<close> is \<open>char\<close>, and \<open>printable\<close>, \<open>control\<close>, \<open>flt\<close>, \<open>format\<close> are the
  four options after their defaults.\<close>

definition extractStep ::
  "bool \<Rightarrow> bool \<Rightarrow> (jsstring \<Rightarrow> nat \<Rightarrow> bool) option \<Rightarrow> nat \<Rightarrow> Glyph
   \<Rightarrow> FontGlyph list \<times> jsstring set \<Rightarrow> FontGlyph list \<times> jsstring set" where
  "extractStep printable control flt i glyph st =
     (case glyph_unicode glyph of
        None \<Rightarrow> st
      | Some u \<Rightarrow>
          (case convertCodePoint u of
             Inl err \<Rightarrow> st
           | Inr ch \<Rightarrow>
               (let shouldInclude = True;
                    shouldInclude =
                      (if printable \<and> \<not> isPrintableChar ch u then False
                       else shouldInclude);
                    shouldInclude =
                      (if \<not> control \<and> u \<ge> 0x00 \<and> u \<le> 0x1F then False
                       else shouldInclude);
                    shouldInclude =
                      (if shouldInclude \<and>
                          (case flt of None \<Rightarrow> False | Some f \<Rightarrow> \<not> f ch u)
                       then False else shouldInclude)
                in if \<not> shouldInclude then st
                   else if ch \<in> snd st then st
                   else (fst st @ [\<lparr>unicode = u, char = ch,
                                     name = glyphNameOr glyph i,
                                     hasPath = (glyph_path glyph \<noteq> None)\<rparr>],
                         insert ch (snd st)))))"

fun extractLoop ::
  "bool \<Rightarrow> bool \<Rightarrow> (jsstring \<Rightarrow> nat \<Rightarrow> bool) option \<Rightarrow> nat \<Rightarrow> Glyph list
   \<Rightarrow> FontGlyph list \<times> jsstring set \<Rightarrow> FontGlyph list \<times> jsstring set" where
  "extractLoop printable control flt i [] st = st"
| "extractLoop printable control flt i (glyph # rest) st =
     extractLoop printable control flt (Suc i) rest
       (extractStep printable control flt i glyph st)"

text \<open>\<open>extractTextFromFont\<close>, from the parsed font on. \<open>glyphs.sort\<close> with the comparator
  \<open>a.unicode - b.unicode\<close> is a stable sort on the key \<open>unicode\<close>.\<close>

definition extractTextFromFont :: "Font \<Rightarrow> ExtractOptions \<Rightarrow> JsError + FontInfo" where
  "extractTextFromFont font options =
     (let printable = (case printableOnly options of None \<Rightarrow> True | Some b \<Rightarrow> b);
          control =
            (case includeControlChars options of None \<Rightarrow> False | Some b \<Rightarrow> b);
          flt = filterFn options;
          format =
            (case outputFormat options of None \<Rightarrow> FormatText | Some f \<Rightarrow> f);
          family =
            (case enOrSelf (names_fontFamily (font_names font)) of
               Some v \<Rightarrow> v | None \<Rightarrow> Str (lit ''Unknown''));
          subfamily =
            (case enOrSelf (names_fontSubfamily (font_names font)) of
               Some v \<Rightarrow> v | None \<Rightarrow> Str (lit ''Unknown''));
          full =
            (case enOrSelf (names_fullName (font_names font)) of
               Some v \<Rightarrow> v
             | None \<Rightarrow> Str (toStringValue family @ lit '' '' @ toStringValue subfamily))
      in case (case enOrSelf (names_postScriptName (font_names font)) of
                 Some v \<Rightarrow> Inr v | None \<Rightarrow> replaceWhiteSpace full) of
           Inl err \<Rightarrow> Inl err
         | Inr postScript \<Rightarrow>
             (let gs =
                    sort_key unicode
                      (fst (extractLoop printable control flt 0
                              (font_glyphs font) ([], {})));
                  txt =
                    (case format of
                       FormatArray \<Rightarrow> jsonArray (map (\<lambda>g. jsonString (char g)) gs)
                     | FormatJson \<Rightarrow> jsonArray (map jsonFontGlyph gs)
                     | FormatText \<Rightarrow> concat (map char gs))
              in Inr \<lparr>familyName = family, subfamilyName = subfamily,
                      fullName = full, postScriptName = postScript,
                      glyphCount = length gs, glyphs = gs,
                      extractedText = txt\<rparr>))"

text \<open>The loop body of \<open>extractTextFromFontSync\<close>: the two \<open>continue\<close> tests after the
  filters are one disjunction, and the \<open>catch\<close> branch writes no warning.\<close>

definition extractStepSync ::
  "bool \<Rightarrow> bool \<Rightarrow> (jsstring \<Rightarrow> nat \<Rightarrow> bool) option \<Rightarrow> nat \<Rightarrow> Glyph
   \<Rightarrow> FontGlyph list \<times> jsstring set \<Rightarrow> FontGlyph list \<times> jsstring set" where
  "extractStepSync printable control flt i glyph st =
     (case glyph_unicode glyph of
        None \<Rightarrow> st
      | Some u \<Rightarrow>
          (case convertCodePoint u of
             Inl err \<Rightarrow> st
           | Inr ch \<Rightarrow>
               (let shouldInclude = True;
                    shouldInclude =
                      (if printable \<and> \<not> isPrintableChar ch u then False
                       else shouldInclude);
                    shouldInclude =
                      (if \<not> control \<and> u \<ge> 0x00 \<and> u \<le> 0x1F then False
                       else shouldInclude);
                    shouldInclude =
                      (if shouldInclude \<and>
                          (case flt of None \<Rightarrow> False | Some f \<Rightarrow> \<not> f ch u)
                       then False else shouldInclude)
                in if \<not> shouldInclude \<or> ch \<in> snd st then st
                   else (fst st @ [\<lparr>unicode = u, char = ch,
                                     name = glyphNameOr glyph i,
                                     hasPath = (glyph_path glyph \<noteq> None)\<rparr>],
                         insert ch (snd st)))))"

fun extractLoopSync ::
  "bool \<Rightarrow> bool \<Rightarrow> (jsstring \<Rightarrow> nat \<Rightarrow> bool) option \<Rightarrow> nat \<Rightarrow> Glyph list
   \<Rightarrow> FontGlyph list \<times> jsstring set \<Rightarrow> FontGlyph list \<times> jsstring set" where
  "extractLoopSync printable control flt i [] st = st"
| "extractLoopSync printable control flt i (glyph # rest) st =
     extractLoopSync printable control flt (Suc i) rest
       (extractStepSync printable control flt i glyph st)"

definition extractTextFromFontSync :: "Font \<Rightarrow> ExtractOptions \<Rightarrow> JsError + FontInfo" where
  "extractTextFromFontSync font options =
     (let printable = (case printableOnly options of None \<Rightarrow> True | Some b \<Rightarrow> b);
          control =
            (case includeControlChars options of None \<Rightarrow> False | Some b \<Rightarrow> b);
          flt = filterFn options;
          format =
            (case outputFormat options of None \<Rightarrow> FormatText | Some f \<Rightarrow> f);
          family =
            (case enOrSelf (names_fontFamily (font_names font)) of
               Some v \<Rightarrow> v | None \<Rightarrow> Str (lit ''Unknown''));
          subfamily =
            (case enOrSelf (names_fontSubfamily (font_names font)) of
               Some v \<Rightarrow> v | None \<Rightarrow> Str (lit ''Unknown''));
          full =
            (case enOrSelf (names_fullName (font_names font)) of
               Some v \<Rightarrow> v
             | None \<Rightarrow> Str (toStringValue family @ lit '' '' @ toStringValue subfamily))
      in case (case enOrSelf (names_postScriptName (font_names font)) of
                 Some v \<Rightarrow> Inr v | None \<Rightarrow> replaceWhiteSpace full) of
           Inl err \<Rightarrow> Inl err
         | Inr postScript \<Rightarrow>
             (let gs =
                    sort_key unicode
                      (fst (extractLoopSync printable control flt 0
                              (font_glyphs font) ([], {})));
                  txt =
                    (case format of
                       FormatArray \<Rightarrow> jsonArray (map (\<lambda>g. jsonString (char g)) gs)
                     | FormatJson \<Rightarrow> jsonArray (map jsonFontGlyph gs)
                     | FormatText \<Rightarrow> concat (map char gs))
              in Inr \<lparr>familyName = family, subfamilyName = subfamily,
                      fullName = full, postScriptName = postScript,
                      glyphCount = length gs, glyphs = gs,
                      extractedText = txt\<rparr>))"

section \<open>The character checker\<close>

record CharCheckResult =
  cc_char :: jsstring
  cc_unicode :: JsNumber
  exists :: bool
  glyphName :: "jsstring option"

record TextCheckResult =
  tc_text :: jsstring
  chars :: "CharCheckResult list"
  allExists :: bool
  missingChars :: "jsstring list"

text \<open>\<open>glyph.unicode === unicode\<close>: an absent code point and \<open>NaN\<close> equal nothing.\<close>

definition strictEq :: "nat option \<Rightarrow> JsNumber \<Rightarrow> bool" where
  "strictEq a b = (case (a, b) of (Some x, Number y) \<Rightarrow> x = y | _ \<Rightarrow> False)"

text \<open>The search loop of \<open>checkCharInFont\<close>, from glyph \<open>i\<close> on; it returns
  \<open>(exists, glyphName)\<close> and stops at the first match.\<close>

fun findGlyph :: "JsNumber \<Rightarrow> nat \<Rightarrow> Glyph list \<Rightarrow> bool \<times> jsstring option" where
  "findGlyph u i [] = (False, None)"
| "findGlyph u i (glyph # rest) =
     (if strictEq (glyph_unicode glyph) u then (True, Some (glyphNameOr glyph i))
      else findGlyph u (Suc i) rest)"

definition checkCharInFont :: "Font \<Rightarrow> jsstring \<Rightarrow> CharCheckResult" where
  "checkCharInFont font ch =
     (let u = codePointAt0 ch;
          found = findGlyph u 0 (font_glyphs font)
      in \<lparr>cc_char = ch, cc_unicode = u, exists = fst found, glyphName = snd found\<rparr>)"

text \<open>The loop of \<open>checkTextInFont\<close> that fills \<open>unicodeToGlyph\<close>; a later glyph with the
  same code point overwrites the entry.\<close>

fun buildUnicodeToGlyph ::
  "nat \<Rightarrow> Glyph list \<Rightarrow> (nat \<rightharpoonup> jsstring \<times> nat) \<Rightarrow> (nat \<rightharpoonup> jsstring \<times> nat)" where
  "buildUnicodeToGlyph i [] m = m"
| "buildUnicodeToGlyph i (glyph # rest) m =
     buildUnicodeToGlyph (Suc i) rest
       (case glyph_unicode glyph of
          None \<Rightarrow> m
        | Some u \<Rightarrow> m(u \<mapsto> (glyphNameOr glyph i, i)))"

text \<open>\<open>unicodeToGlyph.get(unicode)\<close>; no entry has the key \<open>NaN\<close>.\<close>

definition mapGet :: "(nat \<rightharpoonup> jsstring \<times> nat) \<Rightarrow> JsNumber \<Rightarrow> (jsstring \<times> nat) option" where
  "mapGet m k = (case k of Number n \<Rightarrow> m n | NaN \<Rightarrow> None)"

text \<open>The loop over the decomposed characters; the state is the pair of
  \<open>charResults\<close> and \<open>missingChars\<close>.\<close>

fun checkLoop ::
  "(nat \<rightharpoonup> jsstring \<times> nat) \<Rightarrow> jsstring list
   \<Rightarrow> CharCheckResult list \<times> jsstring list \<Rightarrow> CharCheckResult list \<times> jsstring list" where
  "checkLoop unicodeToGlyph [] st = st"
| "checkLoop unicodeToGlyph (ch # rest) st =
     (let u = codePointAt0 ch;
          glyphInfo = mapGet unicodeToGlyph u;
          ex = (glyphInfo \<noteq> None);
          result = \<lparr>cc_char = ch, cc_unicode = u, exists = ex,
                    glyphName = map_option fst glyphInfo\<rparr>
      in checkLoop unicodeToGlyph rest
           (fst st @ [result], if \<not> ex then snd st @ [ch] else snd st))"

definition checkTextInFont :: "Font \<Rightarrow> jsstring \<Rightarrow> TextCheckResult" where
  "checkTextInFont font txt =
     (let cs = arrayFrom txt;
          unicodeToGlyph = buildUnicodeToGlyph 0 (font_glyphs font) Map.empty;
          st = checkLoop unicodeToGlyph cs ([], [])
      in \<lparr>tc_text = txt, chars = fst st, allExists = (snd st = []), missingChars = snd st\<rparr>)"

section \<open>Predicates used to state the properties\<close>

text \<open>The three filters of the loop body as one predicate: a glyph is left out when the
  printable-only test, the control-character test or the custom filter rejects it
  (\<open>shouldInclude\<close> is false after the three tests exactly then).\<close>

definition excluded ::
  "bool \<Rightarrow> bool \<Rightarrow> (jsstring \<Rightarrow> nat \<Rightarrow> bool) option \<Rightarrow> jsstring \<Rightarrow> nat \<Rightarrow> bool" where
  "excluded printable control flt ch u \<longleftrightarrow>
     (printable \<and> \<not> isPrintableChar ch u) \<or> (\<not> control \<and> u \<le> 0x1F) \<or>
     (case flt of None \<Rightarrow> False | Some f \<Rightarrow> \<not> f ch u)"

text \<open>The object literal pushed onto \<open>glyphs\<close> for glyph \<open>i\<close>.\<close>

definition newRecord :: "nat \<Rightarrow> Glyph \<Rightarrow> nat \<Rightarrow> jsstring \<Rightarrow> FontGlyph" where
  "newRecord i glyph u ch =
     \<lparr>unicode = u, char = ch, name = glyphNameOr glyph i, hasPath = (glyph_path glyph \<noteq> None)\<rparr>"

text \<open>The invariant of the glyph loop: \<open>textSet\<close> holds the characters of \<open>glyphs\<close>, no
  character occurs twice, and each record is the conversion of its code point and
  passed the filters.\<close>

definition recordsOk ::
  "bool \<Rightarrow> bool \<Rightarrow> (jsstring \<Rightarrow> nat \<Rightarrow> bool) option
   \<Rightarrow> FontGlyph list \<times> jsstring set \<Rightarrow> bool" where
  "recordsOk p c f st \<longleftrightarrow>
     snd st = char ` set (fst st) \<and> distinct (map char (fst st)) \<and>
     (\<forall>r\<in>set (fst st). convertCodePoint (unicode r) = Inr (char r) \<and>
                         \<not> excluded p c f (char r) (unicode r))"

text \<open>The result object built for one decomposed character in the loop of
  \<open>checkTextInFont\<close>, given the lookup map.\<close>

definition charResult :: "(nat \<rightharpoonup> jsstring \<times> nat) \<Rightarrow> jsstring \<Rightarrow> CharCheckResult" where
  "charResult m ch =
     \<lparr>cc_char = ch, cc_unicode = codePointAt0 ch, exists = (mapGet m (codePointAt0 ch) \<noteq> None),
      glyphName = map_option fst (mapGet m (codePointAt0 ch))\<rparr>"

text \<open>How a list of converted code points reads back when the strings are concatenated
  and the result is split into characters again: a string that is one lead surrogate,
  directly followed by a string that is one trail surrogate, comes back as one
  character; everything else comes back as it was.\<close>

definition loneLead :: "jsstring \<Rightarrow> bool" where
  "loneLead c = (case c of [a] \<Rightarrow> isLeadSurrogate a | _ \<Rightarrow> False)"

definition loneTrail :: "jsstring \<Rightarrow> bool" where
  "loneTrail c = (case c of [b] \<Rightarrow> isTrailSurrogate b | _ \<Rightarrow> False)"

fun joinHalves :: "jsstring list \<Rightarrow> jsstring list" where
  "joinHalves [] = []"
| "joinHalves [c] = [c]"
| "joinHalves (c # d # rest) =
     (if loneLead c \<and> loneTrail d then (c @ d) # joinHalves rest
      else c # joinHalves (d # rest))"

text \<open>A string that is the conversion of some code point.\<close>

definition converted :: "jsstring \<Rightarrow> bool" where
  "converted c \<longleftrightarrow> (\<exists>u. convertCodePoint u = Inr c)"

section \<open>Example fonts\<close>

text \<open>A font with an unmapped glyph, an unnamed glyph, a code point above the Basic
  Multilingual Plane, two glyphs for U+0041 and a tab glyph.\<close>

definition demoNames :: FontNames where
  "demoNames = \<lparr>names_fontFamily = Some \<lparr>en = Some (lit ''Demo'')\<rparr>, names_fontSubfamily = None,
                 names_fullName = None, names_postScriptName = None\<rparr>"

definition demoFont :: Font where
  "demoFont = \<lparr>font_names = demoNames,
     font_glyphs =
       [\<lparr>glyph_unicode = None, glyph_name = Some (lit ''.notdef''), glyph_path = Some Path\<rparr>,
        \<lparr>glyph_unicode = Some 0x4E2D, glyph_name = None, glyph_path = Some Path\<rparr>,
        \<lparr>glyph_unicode = Some 0x41, glyph_name = Some (lit ''A''), glyph_path = Some Path\<rparr>,
        \<lparr>glyph_unicode = Some 0x20000, glyph_name = Some (lit ''u20000''), glyph_path = None\<rparr>,
        \<lparr>glyph_unicode = Some 0x41, glyph_name = Some (lit ''A.alt''), glyph_path = None\<rparr>,
        \<lparr>glyph_unicode = Some 0x09, glyph_name = Some (lit ''tab''), glyph_path = None\<rparr>]\<rparr>"

definition defaultOptions :: ExtractOptions where
  "defaultOptions = \<lparr>printableOnly = None, includeControlChars = None, filterFn = None,
                      outputFormat = None\<rparr>"

definition demoGlyphs :: "FontGlyph list" where
  "demoGlyphs =
     [\<lparr>unicode = 0x41, char = [0x41], name = lit ''A'', hasPath = True\<rparr>,
      \<lparr>unicode = 0x4E2D, char = [0x4E2D], name = lit ''glyph_1'', hasPath = True\<rparr>,
      \<lparr>unicode = 0x20000, char = [0xD840, 0xDC00], name = lit ''u20000'', hasPath = False\<rparr>]"

definition demoInfo :: "FontGlyph list \<Rightarrow> jsstring \<Rightarrow> FontInfo" where
  "demoInfo gs txt =
     \<lparr>familyName = Str (lit ''Demo''), subfamilyName = Str (lit ''Unknown''),
      fullName = Str (lit ''Demo Unknown''), postScriptName = Str (lit ''DemoUnknown''),
      glyphCount = length gs, glyphs = gs, extractedText = txt\<rparr>"

text \<open>What \<open>JSON.stringify\<close> gives for the three characters of \<open>demoGlyphs\<close>: an opening
  bracket, one quoted character per line, indented by two spaces, a closing bracket.\<close>

definition demoArrayText :: jsstring where
  "demoArrayText =
     [0x5B, 0x0A, 0x20, 0x20, 0x22, 0x41, 0x22, 0x2C, 0x0A, 0x20, 0x20, 0x22, 0x4E2D, 0x22,
      0x2C, 0x0A, 0x20, 0x20, 0x22, 0xD840, 0xDC00, 0x22, 0x0A, 0x5D]"

text \<open>A font whose two glyphs are both mapped to the tab character.\<close>

definition tabFont :: Font where
  "tabFont = \<lparr>font_names = demoNames,
     font_glyphs =
       [\<lparr>glyph_unicode = Some 0x09, glyph_name = Some (lit ''tab''), glyph_path = None\<rparr>,
        \<lparr>glyph_unicode = Some 0x09, glyph_name = Some (lit ''tab.alt''), glyph_path = None\<rparr>]\<rparr>"

text \<open>A font with one glyph mapped to a lead surrogate and one to a trail surrogate.\<close>

definition halvesFont :: Font where
  "halvesFont = \<lparr>font_names = demoNames,
     font_glyphs =
       [\<lparr>glyph_unicode = Some 0xD83D, glyph_name = Some (lit ''lead''), glyph_path = None\<rparr>,
        \<lparr>glyph_unicode = Some 0xDE00, glyph_name = Some (lit ''trail''), glyph_path = None\<rparr>]\<rparr>"

text \<open>A font with one glyph, for U+13000.\<close>

definition hieroglyphFont :: Font where
  "hieroglyphFont = \<lparr>font_names = demoNames,
     font_glyphs =
       [\<lparr>glyph_unicode = Some 0x13000, glyph_name = Some (lit ''A001''),
         glyph_path = Some Path\<rparr>]\<rparr>"

text \<open>A font with a glyph mapped to a lead surrogate and a glyph for U+0041.\<close>

definition leadFont :: Font where
  "leadFont = \<lparr>font_names = demoNames,
     font_glyphs =
       [\<lparr>glyph_unicode = Some 0xD83D, glyph_name = Some (lit ''lead''), glyph_path = None\<rparr>,
        \<lparr>glyph_unicode = Some 0x41, glyph_name = Some (lit ''A''), glyph_path = Some Path\<rparr>]\<rparr>"

text \<open>A font with glyphs for U+20000 and U+20001, whose strings start with the same
  code unit.\<close>

definition planeTwoFont :: Font where
  "planeTwoFont = \<lparr>font_names = demoNames,
     font_glyphs =
       [\<lparr>glyph_unicode = Some 0x20000, glyph_name = Some (lit ''u20000''), glyph_path = None\<rparr>,
        \<lparr>glyph_unicode = Some 0x20001, glyph_name = Some (lit ''u20001''), glyph_path = None\<rparr>]\<rparr>"

section \<open>Conversion of code points\<close>


lemma convertCodePoint_pair:
  assumes "convertCodePoint u = Inr c" and "0xFFFF < u"
  shows "\<exists>a b. c = [a, b] \<and> isLeadSurrogate a \<and> isTrailSurrogate b \<and> u = 0x10000 + (a - 0xD800) * 0x400 + (b - 0xDC00)"
  using assms
  by (auto simp: convertCodePoint_def fromCodePoint_def isLeadSurrogate_def isTrailSurrogate_def split: if_splits)

lemma convertCodePoint_unit:
  assumes "convertCodePoint u = Inr c" and "u \<le> 0xFFFF"
  shows "c = [u]"
  using assms by (auto simp: convertCodePoint_def fromCharCode_def)

lemma codePointAt0_convert:
  assumes "convertCodePoint u = Inr c"
  shows "codePointAt0 c = Number u"
proof (cases "u \<le> 0xFFFF")
  case True
  then show ?thesis using convertCodePoint_unit[OF assms] by simp
next
  case False
  then obtain a b where "c = [a, b]" "isLeadSurrogate a" "isTrailSurrogate b"
    "u = 0x10000 + (a - 0xD800) * 0x400 + (b - 0xDC00)"
    using convertCodePoint_pair[OF assms] by auto
  then show ?thesis by simp
qed

lemma convertCodePoint_inj:
  assumes "convertCodePoint u = Inr c" and "convertCodePoint v = Inr c"
  shows "u = v"
  using codePointAt0_convert[OF assms(1)] codePointAt0_convert[OF assms(2)] by simp

lemma arrayFrom_convert:
  assumes "convertCodePoint u = Inr c"
  shows "arrayFrom c = [c]"
proof (cases "u \<le> 0xFFFF")
  case True
  then show ?thesis using convertCodePoint_unit[OF assms] by simp
next
  case False
  then obtain a b where "c = [a, b]" "isLeadSurrogate a" "isTrailSurrogate b"
    using convertCodePoint_pair[OF assms] by auto
  then show ?thesis by simp
qed

section \<open>The glyph loop\<close>

text \<open>The loop body in terms of \<open>excluded\<close>: the three assignments to \<open>shouldInclude\<close>
  leave it false exactly when one of the three filters rejects the glyph.\<close>

lemma extractStep_eq:
  "extractStep p c f i g st =
     (case glyph_unicode g of
        None \<Rightarrow> st
      | Some u \<Rightarrow>
          (case convertCodePoint u of
             Inl err \<Rightarrow> st
           | Inr ch \<Rightarrow>
               if excluded p c f ch u \<or> ch \<in> snd st then st
               else (fst st @ [newRecord i g u ch], insert ch (snd st))))"
  by (auto simp: extractStep_def excluded_def newRecord_def Let_def split: option.splits sum.splits)

lemma recordsOk_init: "recordsOk p c f ([], {})"
  by (simp add: recordsOk_def)

lemma recordsOk_step:
  assumes "recordsOk p c f st"
  shows "recordsOk p c f (extractStep p c f i g st)"
  using assms
  by (auto simp: extractStep_eq recordsOk_def newRecord_def split: option.splits sum.splits)

lemma recordsOk_loop:
  assumes "recordsOk p c f st"
  shows "recordsOk p c f (extractLoop p c f i gl st)"
  using assms
  by (induction gl arbitrary: i st) (simp_all add: recordsOk_step)


lemma extractStep_snd_mono: "snd st \<subseteq> snd (extractStep p c f i g st)"
  by (auto simp: extractStep_eq split: option.splits sum.splits)

lemma extractStep_covers:
  assumes "glyph_unicode g = Some u" and "convertCodePoint u = Inr ch"
    and "\<not> excluded p c f ch u"
  shows "ch \<in> snd (extractStep p c f i g st)"
  using assms by (simp add: extractStep_eq)

lemma extractStep_fst_cases:
  assumes "r \<in> set (fst (extractStep p c f i g st))"
  shows "r \<in> set (fst st) \<or>
         (\<exists>u ch. glyph_unicode g = Some u \<and> convertCodePoint u = Inr ch \<and>
                  \<not> excluded p c f ch u \<and> ch \<notin> snd st \<and> r = newRecord i g u ch)"
  using assms
  by (auto simp: extractStep_eq split: option.splits sum.splits if_splits)

lemma extractLoop_snd_mono: "snd st \<subseteq> snd (extractLoop p c f i gl st)"
proof (induction gl arbitrary: i st)
  case Nil
  show ?case by simp
next
  case (Cons g gl)
  have "snd st \<subseteq> snd (extractStep p c f i g st)"
    by (rule extractStep_snd_mono)
  also have "\<dots> \<subseteq> snd (extractLoop p c f (Suc i) gl (extractStep p c f i g st))"
    by (rule Cons.IH)
  finally show ?case by simp
qed

lemma extractLoop_covers:
  assumes "g \<in> set gl" and "glyph_unicode g = Some u" and "convertCodePoint u = Inr ch"
    and "\<not> excluded p c f ch u"
  shows "ch \<in> snd (extractLoop p c f i gl st)"
  using assms(1)
proof (induction gl arbitrary: i st)
  case Nil
  then show ?case by simp
next
  case (Cons a gl)
  show ?case
  proof (cases "g = a")
    case True
    have "ch \<in> snd (extractStep p c f i a st)"
      using True assms(2-4) by (simp add: extractStep_covers)
    then show ?thesis
      using extractLoop_snd_mono[of "extractStep p c f i a st" p c f "Suc i" gl] by auto
  next
    case False
    with Cons.prems have "g \<in> set gl" by simp
    then show ?thesis using Cons.IH by simp
  qed
qed

lemma newRecord_sel [simp]:
  "unicode (newRecord i g u ch) = u" "char (newRecord i g u ch) = ch"
  "name (newRecord i g u ch) = glyphNameOr g i"
  "hasPath (newRecord i g u ch) = (glyph_path g \<noteq> None)"
  by (simp_all add: newRecord_def)

lemma extractLoop_provenance:
  assumes "r \<in> set (fst (extractLoop p c f i gl st))"
  shows "r \<in> set (fst st) \<or>
         (\<exists>k<length gl. r = newRecord (i + k) (gl ! k) (unicode r) (char r) \<and>
             glyph_unicode (gl ! k) = Some (unicode r) \<and>
             convertCodePoint (unicode r) = Inr (char r) \<and>
             \<not> excluded p c f (char r) (unicode r) \<and> char r \<notin> snd st \<and>
             (\<forall>j<k. glyph_unicode (gl ! j) \<noteq> Some (unicode r)))"
  using assms
proof (induction gl arbitrary: i st)
  case Nil
  then show ?case by simp
next
  case (Cons g gl)
  let ?st = "extractStep p c f i g st"
  from Cons.prems have "r \<in> set (fst (extractLoop p c f (Suc i) gl ?st))" by simp
  from Cons.IH[OF this] consider
    (old) "r \<in> set (fst ?st)"
  | (new) k where "k < length gl" "r = newRecord (Suc i + k) (gl ! k) (unicode r) (char r)"
      "glyph_unicode (gl ! k) = Some (unicode r)"
      "convertCodePoint (unicode r) = Inr (char r)"
      "\<not> excluded p c f (char r) (unicode r)" "char r \<notin> snd ?st"
      "\<forall>j<k. glyph_unicode (gl ! j) \<noteq> Some (unicode r)"
    by blast
  then show ?case
  proof cases
    case old
    from extractStep_fst_cases[OF old] show ?thesis
    proof
      assume "r \<in> set (fst st)"
      then show ?thesis by simp
    next
      assume "\<exists>u ch. glyph_unicode g = Some u \<and> convertCodePoint u = Inr ch \<and>
                \<not> excluded p c f ch u \<and> ch \<notin> snd st \<and> r = newRecord i g u ch"
      then obtain u ch where h: "glyph_unicode g = Some u" "convertCodePoint u = Inr ch"
        "\<not> excluded p c f ch u" "ch \<notin> snd st" "r = newRecord i g u ch"
        by blast
      have "0 < length (g # gl) \<and> r = newRecord (i + 0) ((g # gl) ! 0) (unicode r) (char r) \<and>
            glyph_unicode ((g # gl) ! 0) = Some (unicode r) \<and>
            convertCodePoint (unicode r) = Inr (char r) \<and>
            \<not> excluded p c f (char r) (unicode r) \<and> char r \<notin> snd st \<and>
            (\<forall>j<0. glyph_unicode ((g # gl) ! j) \<noteq> Some (unicode r))"
        using h by simp
      then show ?thesis by blast
    qed
  next
    case new
    have notin: "char r \<notin> snd st"
      using new(6) extractStep_snd_mono[of st p c f i g] by auto
    have first: "glyph_unicode g \<noteq> Some (unicode r)"
    proof
      assume "glyph_unicode g = Some (unicode r)"
      from extractStep_covers[OF this new(4) new(5)] new(6) show False by simp
    qed
    have "\<forall>j<Suc k. glyph_unicode ((g # gl) ! j) \<noteq> Some (unicode r)"
      using first new(7) by (auto simp: less_Suc_eq_0_disj)
    then have "Suc k < length (g # gl) \<and>
          r = newRecord (i + Suc k) ((g # gl) ! Suc k) (unicode r) (char r) \<and>
          glyph_unicode ((g # gl) ! Suc k) = Some (unicode r) \<and>
          convertCodePoint (unicode r) = Inr (char r) \<and>
          \<not> excluded p c f (char r) (unicode r) \<and> char r \<notin> snd st \<and>
          (\<forall>j<Suc k. glyph_unicode ((g # gl) ! j) \<noteq> Some (unicode r))"
      using new notin by simp
    then show ?thesis by blast
  qed
qed


text \<open>Running the loop with a custom filter gives the records of the run without it
  that the filter accepts, in the same order: the run with the filter is simulated step
  by step on the filtered state.\<close>

lemma excluded_Some:
  "excluded p c (Some f) ch u \<longleftrightarrow> excluded p c None ch u \<or> \<not> f ch u"
  by (auto simp: excluded_def)

lemma extractStep_filter_sim:
  assumes "recordsOk p c None st"
  shows "extractStep p c (Some f) i g
           (filter (\<lambda>r. f (char r) (unicode r)) (fst st),
            char ` set (filter (\<lambda>r. f (char r) (unicode r)) (fst st))) =
         (filter (\<lambda>r. f (char r) (unicode r)) (fst (extractStep p c None i g st)),
          char ` set (filter (\<lambda>r. f (char r) (unicode r)) (fst (extractStep p c None i g st))))"
proof (cases "glyph_unicode g")
  case None
  then show ?thesis by (simp add: extractStep_eq)
next
  case (Some u)
  show ?thesis
  proof (cases "convertCodePoint u")
    case (Inl e)
    with Some show ?thesis by (simp add: extractStep_eq)
  next
    case (Inr ch)
    have key: "ch \<in> char ` set (filter (\<lambda>r. f (char r) (unicode r)) (fst st)) \<longleftrightarrow> ch \<in> snd st"
      if "f ch u"
    proof
      assume "ch \<in> char ` set (filter (\<lambda>r. f (char r) (unicode r)) (fst st))"
      then show "ch \<in> snd st" using assms by (auto simp: recordsOk_def)
    next
      assume "ch \<in> snd st"
      then obtain r where r: "r \<in> set (fst st)" "char r = ch"
        using assms by (auto simp: recordsOk_def)
      then have "convertCodePoint (unicode r) = Inr ch"
        using assms by (auto simp: recordsOk_def)
      then have "unicode r = u" using Inr by (rule convertCodePoint_inj)
      with r that show "ch \<in> char ` set (filter (\<lambda>r. f (char r) (unicode r)) (fst st))"
        by force
    qed
    show ?thesis
    proof (cases "f ch u")
      case True
      note fch = True
      show ?thesis
      proof (cases "excluded p c None ch u \<or> ch \<in> snd st")
        case True
        with Some Inr key[OF fch] fch show ?thesis
          by (simp add: extractStep_eq excluded_Some)
      next
        case False
        with Some Inr key[OF fch] fch show ?thesis
          by (simp add: extractStep_eq excluded_Some)
      qed
    next
      case False
      with Some Inr show ?thesis
        by (auto simp: extractStep_eq excluded_Some)
    qed
  qed
qed

lemma extractLoop_filter_sim:
  assumes "recordsOk p c None st"
  shows "fst (extractLoop p c (Some f) i gl
           (filter (\<lambda>r. f (char r) (unicode r)) (fst st),
            char ` set (filter (\<lambda>r. f (char r) (unicode r)) (fst st)))) =
         filter (\<lambda>r. f (char r) (unicode r)) (fst (extractLoop p c None i gl st))"
  using assms
proof (induction gl arbitrary: i st)
  case Nil
  show ?case by simp
next
  case (Cons g gl)
  have ok: "recordsOk p c None (extractStep p c None i g st)"
    using Cons.prems by (rule recordsOk_step)
  show ?case
    using Cons.IH[OF ok, of "Suc i"] extractStep_filter_sim[OF Cons.prems, of f i g]
    by simp
qed

section \<open>The returned inventory\<close>

lemma opt_default_True: "(case x of None \<Rightarrow> True | Some b \<Rightarrow> b) = (x \<noteq> Some False)"
  by (cases x) auto

lemma opt_default_False: "(case x of None \<Rightarrow> False | Some b \<Rightarrow> b) = (x = Some True)"
  by (cases x) auto

lemma extract_glyphs:
  assumes "extractTextFromFont font options = Inr info"
  shows "glyphs info = sort_key unicode (fst (extractLoop (printableOnly options \<noteq> Some False)
           (includeControlChars options = Some True) (filterFn options) 0
           (font_glyphs font) ([], {})))"
  using assms
  by (auto simp: extractTextFromFont_def Let_def opt_default_True opt_default_False
      split: sum.splits)

text \<open>The function returns an inventory unless the PostScript name has to be derived
  from a full name that is a localized-name object without an English entry; then
  \<open>replace\<close> is not a function of it and the call throws before the glyph loop.\<close>

lemma extract_returns:
  "(\<exists>info. extractTextFromFont font options = Inr info) \<longleftrightarrow>
     \<not> (enOrSelf (names_postScriptName (font_names font)) = None \<and>
        (\<exists>l. enOrSelf (names_fullName (font_names font)) = Some (Obj l)))"
  by (auto simp: extractTextFromFont_def Let_def replaceWhiteSpace_def
      split: sum.splits option.splits NameValue.splits)

lemma extract_success_filter:
  assumes "extractTextFromFont font options = Inr info"
  shows "\<exists>info0. extractTextFromFont font (options\<lparr>filterFn := flt\<rparr>) = Inr info0"
  using assms
  by (auto simp: extractTextFromFont_def Let_def split: sum.splits)

lemma extract_records:
  assumes "extractTextFromFont font options = Inr info" and "g \<in> set (glyphs info)"
  shows "convertCodePoint (unicode g) = Inr (char g) \<and>
         \<not> excluded (printableOnly options \<noteq> Some False)
             (includeControlChars options = Some True) (filterFn options) (char g) (unicode g)"
proof -
  let ?st = "extractLoop (printableOnly options \<noteq> Some False)
           (includeControlChars options = Some True) (filterFn options) 0
           (font_glyphs font) ([], {})"
  have "recordsOk (printableOnly options \<noteq> Some False)
           (includeControlChars options = Some True) (filterFn options) ?st"
    by (rule recordsOk_loop) (rule recordsOk_init)
  moreover have "g \<in> set (fst ?st)"
    using assms by (simp add: extract_glyphs)
  ultimately show ?thesis by (simp add: recordsOk_def)
qed

section \<open>The example font, evaluated\<close>

lemma decimal_digit: "n < 10 \<Longrightarrow> decimal n = [48 + n]"
  by (simp add: decimal.simps)

lemmas run_defs = extractTextFromFont_def Let_def extractStep_def convertCodePoint_def
  fromCharCode_def fromCodePoint_def isPrintableChar_def glyphNameOr_def lit_def decimal_digit
  enOrSelf_def toStringValue_def replaceWhiteSpace_def stripWhiteSpace_def isWhiteSpace_def
  demoFont_def demoNames_def defaultOptions_def demoInfo_def demoGlyphs_def

lemmas json_defs = jsonArray_def jsonString_def jsonEscape_def isLeadSurrogate_def
  isTrailSurrogate_def demoArrayText_def

lemma demo_run:
  "extractTextFromFont demoFont defaultOptions =
     Inr (demoInfo demoGlyphs [0x41, 0x4E2D, 0xD840, 0xDC00])"
  by (simp add: run_defs)

lemma demo_run_array:
  "extractTextFromFont demoFont (defaultOptions\<lparr>outputFormat := Some FormatArray\<rparr>) =
     Inr (demoInfo demoGlyphs demoArrayText)"
  by (simp add: run_defs json_defs)

lemma demo_run_latin:
  "extractTextFromFont demoFont (defaultOptions\<lparr>filterFn := Some (\<lambda>ch u. u < 0x100)\<rparr>) =
     Inr (demoInfo [\<lparr>unicode = 0x41, char = [0x41], name = lit ''A'', hasPath = True\<rparr>] [0x41])"
  by (simp add: run_defs)

section \<open>The claims about the inventory\<close>

text \<open>
  C3. When \<open>includeControlChars\<close> is false (or absent), no record of the inventory has a
  code point in [0x00, 0x1F], whatever \<open>printableOnly\<close> and the custom filter are; when
  \<open>printableOnly\<close> is true (or absent), every record is printable; and the custom filter
  only removes records: the inventory built with the filter is the inventory built
  without it, restricted to the records the filter accepts.
\<close>

theorem filters_only_restrict:
  assumes "extractTextFromFont font options = Inr info"
  shows "(includeControlChars options \<noteq> Some True \<longrightarrow> (\<forall>g\<in>set (glyphs info). 0x1F < unicode g)) \<and>
         (printableOnly options \<noteq> Some False \<longrightarrow>
            (\<forall>g\<in>set (glyphs info). isPrintableChar (char g) (unicode g))) \<and>
         (\<exists>info0. extractTextFromFont font (options\<lparr>filterFn := None\<rparr>) = Inr info0 \<and>
            glyphs info = filter (\<lambda>g. case filterFn options of None \<Rightarrow> True
                                     | Some f \<Rightarrow> f (char g) (unicode g)) (glyphs info0))"
proof (intro conjI)
  show "includeControlChars options \<noteq> Some True \<longrightarrow> (\<forall>g\<in>set (glyphs info). 0x1F < unicode g)"
    using extract_records[OF assms] by (fastforce simp: excluded_def)
  show "printableOnly options \<noteq> Some False \<longrightarrow>
          (\<forall>g\<in>set (glyphs info). isPrintableChar (char g) (unicode g))"
    using extract_records[OF assms] by (fastforce simp: excluded_def)
  obtain info0 where info0: "extractTextFromFont font (options\<lparr>filterFn := None\<rparr>) = Inr info0"
    using extract_success_filter[OF assms] by blast
  have "glyphs info = filter (\<lambda>g. case filterFn options of None \<Rightarrow> True
                                 | Some f \<Rightarrow> f (char g) (unicode g)) (glyphs info0)"
  proof (cases "filterFn options")
    case None
    then have "options\<lparr>filterFn := None\<rparr> = options" by simp
    with info0 assms None show ?thesis by simp
  next
    case (Some f)
    have "recordsOk (printableOnly options \<noteq> Some False)
            (includeControlChars options = Some True) None ([], {})"
      by (rule recordsOk_init)
    from extractLoop_filter_sim[OF this, of f 0 "font_glyphs font"] Some
    show ?thesis
      by (simp add: extract_glyphs[OF assms] extract_glyphs[OF info0] filter_sort)
  qed
  with info0 show "\<exists>info0. extractTextFromFont font (options\<lparr>filterFn := None\<rparr>) = Inr info0 \<and>
            glyphs info = filter (\<lambda>g. case filterFn options of None \<Rightarrow> True
                                     | Some f \<Rightarrow> f (char g) (unicode g)) (glyphs info0)"
    by blast
qed


theorem filters_only_restrict_witness:
  "extractTextFromFont demoFont (defaultOptions\<lparr>filterFn := Some (\<lambda>ch u. u < 0x100)\<rparr>) =
     Inr (demoInfo [\<lparr>unicode = 0x41, char = [0x41], name = lit ''A'', hasPath = True\<rparr>] [0x41]) \<and>
   list_all (\<lambda>g. 0x1F < unicode g \<and> isPrintableChar (char g) (unicode g))
     [\<lparr>unicode = 0x41, char = [0x41], name = lit ''A'', hasPath = True\<rparr>] \<and>
   (\<exists>info0. extractTextFromFont demoFont defaultOptions = Inr info0 \<and>
      [\<lparr>unicode = 0x41, char = [0x41], name = lit ''A'', hasPath = True\<rparr>] =
        filter (\<lambda>g. unicode g < 0x100) (glyphs info0))"
  using filters_only_restrict[OF demo_run_latin] demo_run_latin
  by (simp add: defaultOptions_def demoInfo_def)

lemma extractStepSync_eq: "extractStepSync p c f i g st = extractStep p c f i g st"
  by (auto simp: extractStepSync_def extractStep_def Let_def split: option.splits sum.splits)

lemma extractLoopSync_eq: "extractLoopSync p c f i gl st = extractLoop p c f i gl st"
  by (induction gl arbitrary: i st) (simp_all add: extractStepSync_eq)

text \<open>
  C9. The synchronous variant returns what \<open>extractTextFromFont\<close> returns, for every font
  and every options value: the same error, or the same inventory in all its fields.
\<close>

theorem sync_same_result: "extractTextFromFontSync font options = extractTextFromFont font options"
  unfolding extractTextFromFontSync_def extractTextFromFont_def extractLoopSync_eq
  by (rule refl)

lemma extract_presort_ok:
  "recordsOk p c f (extractLoop p c f 0 gl ([], {}))"
  by (rule recordsOk_loop) (rule recordsOk_init)

lemma distinct_map_sort_key:
  assumes "distinct (map f xs)"
  shows "distinct (map f (sort_key k xs))"
proof -
  have "mset (map f (sort_key k xs)) = mset (map f xs)" by simp
  then show ?thesis using assms mset_eq_imp_distinct_iff by blast
qed

text \<open>
  C4. In every returned inventory the records are in ascending order of \<open>unicode\<close> (each
  record's code point is at most the next one's), and no two records have the same
  \<open>char\<close>.
\<close>

theorem inventory_sorted_distinct:
  assumes "extractTextFromFont font options = Inr info"
  shows "sorted (map unicode (glyphs info)) \<and> distinct (map char (glyphs info)) \<and>
         (\<forall>i. Suc i < length (glyphs info) \<longrightarrow>
              unicode (glyphs info ! i) \<le> unicode (glyphs info ! Suc i))"
proof -
  let ?l = "fst (extractLoop (printableOnly options \<noteq> Some False)
           (includeControlChars options = Some True) (filterFn options) 0
           (font_glyphs font) ([], {}))"
  have g: "glyphs info = sort_key unicode ?l" using assms by (rule extract_glyphs)
  have srt: "sorted (map unicode (glyphs info))" by (simp add: g)
  have "distinct (map char ?l)"
    using extract_presort_ok[of "printableOnly options \<noteq> Some False"
        "includeControlChars options = Some True" "filterFn options" "font_glyphs font"]
    by (simp add: recordsOk_def)
  then have dst: "distinct (map char (glyphs info))"
    unfolding g by (rule distinct_map_sort_key)
  have "\<forall>i. Suc i < length (map unicode (glyphs info)) \<longrightarrow>
          map unicode (glyphs info) ! i \<le> map unicode (glyphs info) ! Suc i"
    using srt by (simp only: sorted_iff_nth_Suc)
  then have "\<forall>i. Suc i < length (glyphs info) \<longrightarrow>
          unicode (glyphs info ! i) \<le> unicode (glyphs info ! Suc i)"
    by simp
  with srt dst show ?thesis by blast
qed

theorem inventory_sorted_distinct_witness:
  "extractTextFromFont demoFont defaultOptions =
     Inr (demoInfo demoGlyphs [0x41, 0x4E2D, 0xD840, 0xDC00]) \<and>
   sorted (map unicode demoGlyphs) \<and> distinct (map char demoGlyphs)"
  using inventory_sorted_distinct[OF demo_run] demo_run
  by (simp add: demoInfo_def)

lemma extract_text:
  assumes "extractTextFromFont font options = Inr info"
  shows "extractedText info =
     (case outputFormat options of
        None \<Rightarrow> concat (map char (glyphs info))
      | Some FormatText \<Rightarrow> concat (map char (glyphs info))
      | Some FormatArray \<Rightarrow> jsonArray (map (\<lambda>g. jsonString (char g)) (glyphs info))
      | Some FormatJson \<Rightarrow> jsonArray (map jsonFontGlyph (glyphs info)))"
  using assms
  by (auto simp: extractTextFromFont_def Let_def split: sum.splits option.splits OutputFormat.splits)

lemma extract_format_irrelevant:
  assumes "extractTextFromFont font options = Inr info"
  shows "\<exists>info'. extractTextFromFont font (options\<lparr>outputFormat := fmt\<rparr>) = Inr info' \<and>
           glyphs info' = glyphs info \<and> glyphCount info' = glyphCount info"
  using assms
  by (auto simp: extractTextFromFont_def Let_def split: sum.splits)

lemma extract_count:
  assumes "extractTextFromFont font options = Inr info"
  shows "glyphCount info = length (glyphs info)"
  using assms
  by (auto simp: extractTextFromFont_def Let_def split: sum.splits)

text \<open>
  C1, as the code has it. \<open>extractedText\<close> is the concatenation of the characters of the
  records, in their ascending order of \<open>unicode\<close>, when \<open>outputFormat\<close> is \<open>text\<close> or absent;
  it is the JSON serialisation of the list of characters when the format is \<open>array\<close>, and
  of the list of records when it is \<open>json\<close>. The records and their count are the same
  for every \<open>outputFormat\<close>.
\<close>

theorem extractedText_by_format:
  assumes "extractTextFromFont font options = Inr info"
  shows "(outputFormat options = None \<or> outputFormat options = Some FormatText \<longrightarrow>
            extractedText info = concat (map char (glyphs info))) \<and>
         (outputFormat options = Some FormatArray \<longrightarrow>
            extractedText info = jsonArray (map (\<lambda>g. jsonString (char g)) (glyphs info))) \<and>
         (outputFormat options = Some FormatJson \<longrightarrow>
            extractedText info = jsonArray (map jsonFontGlyph (glyphs info))) \<and>
         sorted (map unicode (glyphs info)) \<and>
         (\<forall>fmt. \<exists>info'. extractTextFromFont font (options\<lparr>outputFormat := fmt\<rparr>) = Inr info' \<and>
            glyphs info' = glyphs info \<and> glyphCount info' = glyphCount info)"
proof -
  have "sorted (map unicode (glyphs info))"
    by (simp add: extract_glyphs[OF assms])
  then show ?thesis
    using extract_text[OF assms] extract_format_irrelevant[OF assms]
    by (auto split: option.splits OutputFormat.splits)
qed


theorem extractedText_by_format_witness:
  "extractTextFromFont demoFont defaultOptions =
     Inr (demoInfo demoGlyphs [0x41, 0x4E2D, 0xD840, 0xDC00]) \<and>
   [0x41, 0x4E2D, 0xD840, 0xDC00] = concat (map char demoGlyphs) \<and>
   extractTextFromFont demoFont (defaultOptions\<lparr>outputFormat := Some FormatArray\<rparr>) =
     Inr (demoInfo demoGlyphs demoArrayText) \<and>
   demoArrayText = jsonArray (map (\<lambda>g. jsonString (char g)) demoGlyphs)"
  using extractedText_by_format[OF demo_run] extractedText_by_format[OF demo_run_array]
    demo_run demo_run_array
  by (simp add: demoInfo_def defaultOptions_def)

text \<open>
  C1 as stated fails for the format \<open>array\<close>: on the example font \<open>extractedText\<close> is the
  JSON text, which is not the concatenation of the three characters.
\<close>

theorem extractedText_array_counterexample:
  "extractTextFromFont demoFont (defaultOptions\<lparr>outputFormat := Some FormatArray\<rparr>) =
     Inr (demoInfo demoGlyphs demoArrayText) \<and>
   extractedText (demoInfo demoGlyphs demoArrayText) \<noteq>
     concat (map char (glyphs (demoInfo demoGlyphs demoArrayText)))"
  using demo_run_array
  by (simp add: demoInfo_def demoGlyphs_def demoArrayText_def)

section \<open>The claims about the character checker\<close>


lemma checkLoop_eq:
  "checkLoop m cs st =
     (fst st @ map (charResult m) cs, snd st @ filter (\<lambda>ch. \<not> exists (charResult m ch)) cs)"
  by (induction cs arbitrary: st) (simp_all add: Let_def charResult_def)

lemma checkText_chars:
  "chars (checkTextInFont font txt) =
     map (charResult (buildUnicodeToGlyph 0 (font_glyphs font) Map.empty)) (arrayFrom txt)"
  by (simp add: checkTextInFont_def Let_def checkLoop_eq)

lemma checkText_missing:
  "missingChars (checkTextInFont font txt) =
     filter (\<lambda>ch. \<not> exists (charResult (buildUnicodeToGlyph 0 (font_glyphs font) Map.empty) ch))
       (arrayFrom txt)"
  by (simp add: checkTextInFont_def Let_def checkLoop_eq)

lemma checkText_allExists:
  "allExists (checkTextInFont font txt) = (missingChars (checkTextInFont font txt) = [])"
  by (simp add: checkTextInFont_def Let_def)

lemma concat_arrayFrom: "concat (arrayFrom s) = s"
  by (induction s rule: arrayFrom.induct) simp_all

lemma arrayFrom_nonempty: "c \<in> set (arrayFrom s) \<Longrightarrow> c \<noteq> []"
  by (induction s rule: arrayFrom.induct) (auto split: if_splits)

lemma charResult_sel [simp]:
  "cc_char (charResult m ch) = ch" "cc_unicode (charResult m ch) = codePointAt0 ch"
  by (simp_all add: charResult_def)

text \<open>The lookup map has an entry for a code point exactly when some glyph of the font
  is mapped to it, so an entry of \<open>chars\<close> exists exactly when the font has a glyph for
  its code point.\<close>

lemma buildUnicodeToGlyph_dom:
  "buildUnicodeToGlyph i gl m u \<noteq> None \<longleftrightarrow>
     m u \<noteq> None \<or> (\<exists>g\<in>set gl. glyph_unicode g = Some u)"
  by (induction gl arbitrary: i m) (auto split: option.splits)

lemma charResult_exists_font:
  "exists (charResult (buildUnicodeToGlyph 0 gl Map.empty) ch) \<longleftrightarrow>
     (\<exists>g\<in>set gl. strictEq (glyph_unicode g) (codePointAt0 ch))"
proof (cases "codePointAt0 ch")
  case (Number n)
  then show ?thesis
    using buildUnicodeToGlyph_dom[of 0 gl Map.empty n]
    by (auto simp: charResult_def mapGet_def strictEq_def split: option.splits)
next
  case NaN
  then show ?thesis
    by (auto simp: charResult_def mapGet_def strictEq_def split: option.splits)
qed

lemma findGlyph_strictEq:
  "fst (findGlyph n i gl) \<longleftrightarrow> (\<exists>g\<in>set gl. strictEq (glyph_unicode g) n)"
  by (induction gl arbitrary: i) auto

lemma checkChar_exists:
  "exists (checkCharInFont font ch) = fst (findGlyph (codePointAt0 ch) 0 (font_glyphs font))"
  by (simp add: checkCharInFont_def Let_def)

text \<open>
  C5. For every font and every string, the empty one included: \<open>allExists\<close> holds exactly
  when \<open>missingChars\<close> is empty, which is exactly when every entry of \<open>chars\<close> has
  \<open>exists\<close> true; \<open>missingChars\<close> lists the characters of the entries that do not exist,
  in the order of the string and with repetitions; \<open>chars\<close> has one entry per element of
  the decomposition of the string, in that order, and the entries' characters
  concatenated give the string back. On the empty string the result has no entries, no
  missing characters and \<open>allExists\<close> true. An entry exists exactly when some glyph of
  the font is mapped to the code point of its character, which is also the answer of
  \<open>checkCharInFont\<close> for that character; so \<open>missingChars\<close> lists, in order and with
  repetitions, the characters of the string for which the font has no glyph.
\<close>

theorem checkText_invariants:
  "(allExists (checkTextInFont font txt) \<longleftrightarrow> missingChars (checkTextInFont font txt) = []) \<and>
   (missingChars (checkTextInFont font txt) = [] \<longleftrightarrow>
      list_all exists (chars (checkTextInFont font txt))) \<and>
   missingChars (checkTextInFont font txt) =
     map cc_char (filter (\<lambda>r. \<not> exists r) (chars (checkTextInFont font txt))) \<and>
   map cc_char (chars (checkTextInFont font txt)) = arrayFrom txt \<and>
   concat (map cc_char (chars (checkTextInFont font txt))) = txt \<and>
   map cc_unicode (chars (checkTextInFont font txt)) = map codePointAt0 (arrayFrom txt) \<and>
   tc_text (checkTextInFont font txt) = txt \<and>
   checkTextInFont font [] = \<lparr>tc_text = [], chars = [], allExists = True, missingChars = []\<rparr> \<and>
   map exists (chars (checkTextInFont font txt)) =
     map (\<lambda>ch. \<exists>g\<in>set (font_glyphs font). strictEq (glyph_unicode g) (codePointAt0 ch))
       (arrayFrom txt) \<and>
   missingChars (checkTextInFont font txt) =
     filter (\<lambda>ch. \<not> (\<exists>g\<in>set (font_glyphs font). strictEq (glyph_unicode g) (codePointAt0 ch)))
       (arrayFrom txt) \<and>
   map exists (chars (checkTextInFont font txt)) =
     map (\<lambda>ch. exists (checkCharInFont font ch)) (arrayFrom txt)"
proof -
  let ?m = "buildUnicodeToGlyph 0 (font_glyphs font) Map.empty"
  have c: "chars (checkTextInFont font txt) = map (charResult ?m) (arrayFrom txt)"
    by (rule checkText_chars)
  have m: "missingChars (checkTextInFont font txt) =
      filter (\<lambda>ch. \<not> exists (charResult ?m ch)) (arrayFrom txt)"
    by (rule checkText_missing)
  have 1: "allExists (checkTextInFont font txt) \<longleftrightarrow> missingChars (checkTextInFont font txt) = []"
    by (rule checkText_allExists)
  have 2: "missingChars (checkTextInFont font txt) = [] \<longleftrightarrow>
      list_all exists (chars (checkTextInFont font txt))"
    unfolding c m by (simp add: filter_empty_conv list_all_iff)
  have 3: "missingChars (checkTextInFont font txt) =
     map cc_char (filter (\<lambda>r. \<not> exists r) (chars (checkTextInFont font txt)))"
    unfolding c m by (simp add: filter_map comp_def)
  have 4: "map cc_char (chars (checkTextInFont font txt)) = arrayFrom txt"
    unfolding c by (simp add: comp_def)
  have 5: "concat (map cc_char (chars (checkTextInFont font txt))) = txt"
    unfolding 4 by (rule concat_arrayFrom)
  have 6: "map cc_unicode (chars (checkTextInFont font txt)) = map codePointAt0 (arrayFrom txt)"
    unfolding c by (simp add: comp_def)
  have 7: "tc_text (checkTextInFont font txt) = txt"
    by (simp add: checkTextInFont_def Let_def)
  have 8: "checkTextInFont font [] = \<lparr>tc_text = [], chars = [], allExists = True, missingChars = []\<rparr>"
    by (simp add: checkTextInFont_def Let_def)
  have 9: "map exists (chars (checkTextInFont font txt)) =
     map (\<lambda>ch. \<exists>g\<in>set (font_glyphs font). strictEq (glyph_unicode g) (codePointAt0 ch))
       (arrayFrom txt)"
    unfolding c by (simp add: comp_def charResult_exists_font)
  have 10: "missingChars (checkTextInFont font txt) =
     filter (\<lambda>ch. \<not> (\<exists>g\<in>set (font_glyphs font). strictEq (glyph_unicode g) (codePointAt0 ch)))
       (arrayFrom txt)"
    unfolding m by (simp only: charResult_exists_font)
  have 11: "map exists (chars (checkTextInFont font txt)) =
     map (\<lambda>ch. exists (checkCharInFont font ch)) (arrayFrom txt)"
    unfolding 9 by (simp only: checkChar_exists findGlyph_strictEq)
  from 1 2 3 4 5 6 7 8 9 10 11 show ?thesis by blast
qed

theorem checkText_invariants_witness:
  "arrayFrom [0x41, 0x58, 0xD840, 0xDC00, 0x58] = [[0x41], [0x58], [0xD840, 0xDC00], [0x58]] \<and>
   map exists (chars (checkTextInFont demoFont [0x41, 0x58, 0xD840, 0xDC00, 0x58])) =
     [True, False, True, False] \<and>
   missingChars (checkTextInFont demoFont [0x41, 0x58, 0xD840, 0xDC00, 0x58]) = [[0x58], [0x58]] \<and>
   allExists (checkTextInFont demoFont [0x41, 0x58, 0xD840, 0xDC00, 0x58]) = False"
proof -
  have a: "arrayFrom [0x41, 0x58, 0xD840, 0xDC00, 0x58] = [[0x41], [0x58], [0xD840, 0xDC00], [0x58]]"
    by (simp add: isLeadSurrogate_def isTrailSurrogate_def)
  let ?r = "checkTextInFont demoFont [0x41, 0x58, 0xD840, 0xDC00, 0x58]"
  note inv = checkText_invariants[of demoFont "[0x41, 0x58, 0xD840, 0xDC00, 0x58]"]
  from inv have e: "map exists (chars ?r) =
     map (\<lambda>ch. \<exists>g\<in>set (font_glyphs demoFont). strictEq (glyph_unicode g) (codePointAt0 ch))
       (arrayFrom [0x41, 0x58, 0xD840, 0xDC00, 0x58])"
    by blast
  from inv have m: "missingChars ?r =
     filter (\<lambda>ch. \<not> (\<exists>g\<in>set (font_glyphs demoFont). strictEq (glyph_unicode g) (codePointAt0 ch)))
       (arrayFrom [0x41, 0x58, 0xD840, 0xDC00, 0x58])"
    by blast
  from inv have ae: "allExists ?r \<longleftrightarrow> missingChars ?r = []"
    by blast
  have e': "map exists (chars ?r) = [True, False, True, False]"
    unfolding e a
    by (simp add: demoFont_def strictEq_def isLeadSurrogate_def isTrailSurrogate_def)
  have m': "missingChars ?r = [[0x58], [0x58]]"
    unfolding m a
    by (simp add: demoFont_def strictEq_def isLeadSurrogate_def isTrailSurrogate_def)
  from a e' m' ae show ?thesis by simp
qed

lemma not_lead_and_trail: "isLeadSurrogate a \<Longrightarrow> \<not> isTrailSurrogate a"
  by (simp add: isLeadSurrogate_def isTrailSurrogate_def)

lemma arrayFrom_append_pair:
  assumes "isLeadSurrogate a" and "isTrailSurrogate b"
  shows "arrayFrom (s1 @ a # b # s2) = arrayFrom s1 @ [a, b] # arrayFrom s2"
  using assms
  by (induction s1 rule: arrayFrom.induct) (simp_all add: not_lead_and_trail)

lemma arrayFrom_first_codePoint:
  assumes "arrayFrom txt = c # cs"
  shows "codePointAt0 txt = codePointAt0 c"
  using assms
  by (cases "txt" rule: arrayFrom.cases) (auto split: if_splits)

text \<open>
  C10. When the decomposition of the string starts with the character \<open>c\<close>, whatever
  follows, \<open>checkCharInFont\<close> answers for \<open>c\<close>: \<open>unicode\<close> is the code point of \<open>c\<close>, \<open>exists\<close>
  and \<open>glyphName\<close> are those of the search for that code point, and \<open>char\<close> is the whole
  string as it was given.
\<close>

theorem checkChar_first_scalar:
  assumes "arrayFrom txt = c # cs"
  shows "checkCharInFont font txt = (checkCharInFont font c)\<lparr>cc_char := txt\<rparr> \<and>
         cc_unicode (checkCharInFont font txt) = codePointAt0 c \<and>
         exists (checkCharInFont font txt) = fst (findGlyph (codePointAt0 c) 0 (font_glyphs font)) \<and>
         glyphName (checkCharInFont font txt) = snd (findGlyph (codePointAt0 c) 0 (font_glyphs font)) \<and>
         cc_char (checkCharInFont font txt) = txt"
  using arrayFrom_first_codePoint[OF assms]
  by (simp add: checkCharInFont_def Let_def)

theorem checkChar_first_scalar_witness:
  "arrayFrom [0xD840, 0xDC00, 0x58, 0x41] = [0xD840, 0xDC00] # [[0x58], [0x41]] \<and>
   checkCharInFont demoFont [0xD840, 0xDC00, 0x58, 0x41] =
     \<lparr>cc_char = [0xD840, 0xDC00, 0x58, 0x41], cc_unicode = Number 0x20000, exists = True,
      glyphName = Some (lit ''u20000'')\<rparr> \<and>
   checkCharInFont demoFont [0xD840, 0xDC00] =
     \<lparr>cc_char = [0xD840, 0xDC00], cc_unicode = Number 0x20000, exists = True,
      glyphName = Some (lit ''u20000'')\<rparr>"
proof -
  have h: "arrayFrom [0xD840, 0xDC00, 0x58, 0x41] = [0xD840, 0xDC00] # [[0x58], [0x41]]"
    by (simp add: isLeadSurrogate_def isTrailSurrogate_def)
  have c: "checkCharInFont demoFont [0xD840, 0xDC00] =
     \<lparr>cc_char = [0xD840, 0xDC00], cc_unicode = Number 0x20000, exists = True,
      glyphName = Some (lit ''u20000'')\<rparr>"
    by (simp add: checkCharInFont_def Let_def demoFont_def strictEq_def glyphNameOr_def lit_def
        isLeadSurrogate_def isTrailSurrogate_def)
  from checkChar_first_scalar[OF h, of demoFont] h c show ?thesis by simp
qed

section \<open>Duplicate code points\<close>

lemma filter_unique:
  assumes "distinct xs" and "x \<in> set xs" and "\<And>y. y \<in> set xs \<Longrightarrow> P y \<longleftrightarrow> y = x"
  shows "filter P xs = [x]"
  using assms
proof (induction xs)
  case Nil
  then show ?case by simp
next
  case (Cons a xs)
  show ?case
  proof (cases "a = x")
    case True
    have "\<forall>y\<in>set xs. \<not> P y" using Cons.prems True by auto
    then have "filter P xs = []" by (simp add: filter_empty_conv)
    moreover have "P a" using Cons.prems(3)[of a] True by simp
    ultimately show ?thesis using True by simp
  next
    case False
    then have "\<not> P a" using Cons.prems(3)[of a] by simp
    moreover have "filter P xs = [x]"
      using Cons.IH Cons.prems False by auto
    ultimately show ?thesis by simp
  qed
qed

lemma findGlyph_exists:
  "fst (findGlyph (Number u) i gl) \<longleftrightarrow> (\<exists>g\<in>set gl. glyph_unicode g = Some u)"
  by (induction gl arbitrary: i) (auto simp: strictEq_def split: option.splits)

lemma presort_set:
  assumes "extractTextFromFont font options = Inr info"
  shows "set (glyphs info) = set (fst (extractLoop (printableOnly options \<noteq> Some False)
           (includeControlChars options = Some True) (filterFn options) 0
           (font_glyphs font) ([], {})))"
  by (simp add: extract_glyphs[OF assms])

lemma extract_from_font:
  assumes "extractTextFromFont font options = Inr info" and "r \<in> set (glyphs info)"
  shows "\<exists>k<length (font_glyphs font).
           r = newRecord k (font_glyphs font ! k) (unicode r) (char r) \<and>
           glyph_unicode (font_glyphs font ! k) = Some (unicode r) \<and>
           (\<forall>j<k. glyph_unicode (font_glyphs font ! j) \<noteq> Some (unicode r))"
proof -
  have "r \<in> set (fst (extractLoop (printableOnly options \<noteq> Some False)
           (includeControlChars options = Some True) (filterFn options) 0
           (font_glyphs font) ([], {})))"
    using assms by (simp add: presort_set)
  from extractLoop_provenance[OF this] show ?thesis by auto
qed

lemma lowest_index_record:
  assumes run: "extractTextFromFont font options = Inr info"
    and i: "i < length (font_glyphs font)"
    and ui: "glyph_unicode (font_glyphs font ! i) = Some u"
    and first: "\<forall>j<i. glyph_unicode (font_glyphs font ! j) \<noteq> Some u"
    and conv: "convertCodePoint u = Inr ch"
    and incl: "\<not> excluded (printableOnly options \<noteq> Some False)
                (includeControlChars options = Some True) (filterFn options) ch u"
  shows "filter (\<lambda>r. unicode r = u) (glyphs info) = [newRecord i (font_glyphs font ! i) u ch]"
proof -
  let ?p = "printableOnly options \<noteq> Some False"
  let ?c = "includeControlChars options = Some True"
  let ?st = "extractLoop ?p ?c (filterFn options) 0 (font_glyphs font) ([], {})"
  let ?new = "newRecord i (font_glyphs font ! i) u ch"
  have ok: "recordsOk ?p ?c (filterFn options) ?st" by (rule extract_presort_ok)
  have "font_glyphs font ! i \<in> set (font_glyphs font)" using i by simp
  from extractLoop_covers[OF this ui conv incl] have "ch \<in> snd ?st" .
  then obtain r where r: "r \<in> set (fst ?st)" "char r = ch"
    using ok by (auto simp: recordsOk_def)
  have rconv: "convertCodePoint (unicode r) = Inr ch"
    using ok r by (auto simp: recordsOk_def)
  then have ru: "unicode r = u" using conv by (rule convertCodePoint_inj)
  have rin: "r \<in> set (glyphs info)" using r by (simp add: presort_set[OF run])
  from extract_from_font[OF run rin] obtain k where k: "k < length (font_glyphs font)"
    "r = newRecord k (font_glyphs font ! k) (unicode r) (char r)"
    "glyph_unicode (font_glyphs font ! k) = Some (unicode r)"
    "\<forall>j<k. glyph_unicode (font_glyphs font ! j) \<noteq> Some (unicode r)"
    by blast
  have "k = i"
  proof (rule ccontr)
    assume "k \<noteq> i"
    then consider "k < i" | "i < k" by linarith
    then show False
    proof cases
      case 1
      with first k(3) ru show False by simp
    next
      case 2
      with k(4) ui ru show False by simp
    qed
  qed
  with k(2) ru r(2) have req: "r = ?new" by simp
  have dist: "distinct (map char (fst ?st))" using ok by (simp add: recordsOk_def)
  then have d: "distinct (fst ?st)" by (simp add: distinct_map)
  have uniq: "unicode y = u \<longleftrightarrow> y = r" if "y \<in> set (fst ?st)" for y
  proof
    assume "unicode y = u"
    then have "convertCodePoint u = Inr (char y)"
      using ok that by (auto simp: recordsOk_def)
    with conv have "char y = char r" using r(2) by simp
    with dist that r(1) show "y = r" by (auto simp: distinct_map inj_on_def)
  next
    assume "y = r"
    with ru show "unicode y = u" by simp
  qed
  have "filter (\<lambda>r. unicode r = u) (fst ?st) = [r]"
    using d r(1) uniq by (rule filter_unique)
  then show ?thesis
    by (simp add: extract_glyphs[OF run] filter_sort req)
qed

lemma excluded_record_absent:
  assumes run: "extractTextFromFont font options = Inr info"
    and "convertCodePoint u = Inl e \<or>
         (\<exists>ch. convertCodePoint u = Inr ch \<and>
            excluded (printableOnly options \<noteq> Some False)
              (includeControlChars options = Some True) (filterFn options) ch u)"
  shows "filter (\<lambda>r. unicode r = u) (glyphs info) = []"
proof -
  have "\<not> unicode r = u" if "r \<in> set (glyphs info)" for r
    using extract_records[OF run that] assms(2) by auto
  then show ?thesis by (simp add: filter_empty_conv)
qed


lemma record_char_unicode:
  assumes run: "extractTextFromFont font options = Inr info"
    and conv: "convertCodePoint u = Inr ch" and r: "r \<in> set (glyphs info)"
  shows "char r = ch \<longleftrightarrow> unicode r = u"
proof
  assume "char r = ch"
  then have "convertCodePoint (unicode r) = Inr ch"
    using extract_records[OF run r] by simp
  then show "unicode r = u" using conv by (rule convertCodePoint_inj)
next
  assume "unicode r = u"
  then show "char r = ch" using extract_records[OF run r] conv by simp
qed

text \<open>
  C8, as the code has it. Let \<open>i\<close> be the lowest index of a glyph mapped to the code point
  \<open>u\<close>, however many later glyphs are mapped to \<open>u\<close> as well. When \<open>u\<close> converts to a
  character and passes the three filters, the inventory has exactly one record for it,
  with the name (or the name made from the index) and the path flag of glyph \<open>i\<close>;
  when \<open>u\<close> does not convert or a filter rejects it, the inventory has no record for
  it. The records with that character are the records with that code point.
\<close>

theorem lowest_index_wins:
  assumes run: "extractTextFromFont font options = Inr info"
    and i: "i < length (font_glyphs font)"
    and ui: "glyph_unicode (font_glyphs font ! i) = Some u"
    and first: "\<forall>j<i. glyph_unicode (font_glyphs font ! j) \<noteq> Some u"
  shows "filter (\<lambda>r. unicode r = u) (glyphs info) =
           (case convertCodePoint u of
              Inl e \<Rightarrow> []
            | Inr ch \<Rightarrow>
                if excluded (printableOnly options \<noteq> Some False)
                     (includeControlChars options = Some True) (filterFn options) ch u
                then []
                else [\<lparr>unicode = u, char = ch, name = glyphNameOr (font_glyphs font ! i) i,
                       hasPath = (glyph_path (font_glyphs font ! i) \<noteq> None)\<rparr>]) \<and>
         (\<forall>ch. convertCodePoint u = Inr ch \<longrightarrow>
            filter (\<lambda>r. char r = ch) (glyphs info) = filter (\<lambda>r. unicode r = u) (glyphs info))"
proof
  show "filter (\<lambda>r. unicode r = u) (glyphs info) =
           (case convertCodePoint u of
              Inl e \<Rightarrow> []
            | Inr ch \<Rightarrow>
                if excluded (printableOnly options \<noteq> Some False)
                     (includeControlChars options = Some True) (filterFn options) ch u
                then []
                else [\<lparr>unicode = u, char = ch, name = glyphNameOr (font_glyphs font ! i) i,
                       hasPath = (glyph_path (font_glyphs font ! i) \<noteq> None)\<rparr>])"
  proof (cases "convertCodePoint u")
    case (Inl e)
    then show ?thesis using excluded_record_absent[OF run, of u e] by simp
  next
    case (Inr ch)
    show ?thesis
    proof (cases "excluded (printableOnly options \<noteq> Some False)
                     (includeControlChars options = Some True) (filterFn options) ch u")
      case True
      with Inr show ?thesis using excluded_record_absent[OF run, of u] by simp
    next
      case False
      from lowest_index_record[OF run i ui first Inr False] Inr False
      show ?thesis by (simp add: newRecord_def)
    qed
  qed
  show "\<forall>ch. convertCodePoint u = Inr ch \<longrightarrow>
            filter (\<lambda>r. char r = ch) (glyphs info) = filter (\<lambda>r. unicode r = u) (glyphs info)"
  proof (intro allI impI)
    fix ch assume "convertCodePoint u = Inr ch"
    then show "filter (\<lambda>r. char r = ch) (glyphs info) = filter (\<lambda>r. unicode r = u) (glyphs info)"
      using record_char_unicode[OF run] by (intro filter_cong) auto
  qed
qed

text \<open>
  C8 as stated fails when the shared code point is filtered out: both glyphs of the
  font are mapped to the tab character, and the inventory built with the default
  options has no record at all.
\<close>

lemma tab_run: "extractTextFromFont tabFont defaultOptions = Inr (demoInfo [] [])"
  by (simp add: run_defs tabFont_def)

theorem excluded_duplicates_counterexample:
  "glyph_unicode (font_glyphs tabFont ! 0) = Some 0x09 \<and>
   glyph_unicode (font_glyphs tabFont ! 1) = Some 0x09 \<and>
   extractTextFromFont tabFont defaultOptions = Inr (demoInfo [] []) \<and>
   glyphs (demoInfo [] []) = []"
  using tab_run by (simp add: tabFont_def demoInfo_def)

theorem lowest_index_wins_witness:
  "extractTextFromFont demoFont defaultOptions =
     Inr (demoInfo demoGlyphs [0x41, 0x4E2D, 0xD840, 0xDC00]) \<and>
   glyph_unicode (font_glyphs demoFont ! 2) = Some 0x41 \<and>
   glyph_unicode (font_glyphs demoFont ! 4) = Some 0x41 \<and>
   glyph_name (font_glyphs demoFont ! 4) = Some (lit ''A.alt'') \<and>
   filter (\<lambda>r. unicode r = 0x41) demoGlyphs =
     [\<lparr>unicode = 0x41, char = [0x41], name = lit ''A'', hasPath = True\<rparr>] \<and>
   filter (\<lambda>r. char r = [0x41]) demoGlyphs = filter (\<lambda>r. unicode r = 0x41) demoGlyphs"
proof -
  have i: "2 < length (font_glyphs demoFont)" by (simp add: demoFont_def)
  have ui: "glyph_unicode (font_glyphs demoFont ! 2) = Some 0x41" by (simp add: demoFont_def)
  have first: "\<forall>j<2. glyph_unicode (font_glyphs demoFont ! j) \<noteq> Some 0x41"
    by (simp add: demoFont_def less_Suc_eq numeral_2_eq_2)
  from lowest_index_wins[OF demo_run i ui first] demo_run show ?thesis
    by (simp add: demoInfo_def demoGlyphs_def demoFont_def)
qed


section \<open>Coverage of the extracted text\<close>

lemma isPrintableChar_not_surrogate:
  assumes "isPrintableChar ch u"
  shows "\<not> (0xD800 \<le> u \<and> u \<le> 0xDFFF)"
  using assms by (auto simp: isPrintableChar_def split: if_splits)

lemma arrayFrom_Cons_not_lead:
  assumes "\<not> isLeadSurrogate a"
  shows "arrayFrom (a # s) = [a] # arrayFrom s"
  using assms by (cases s) simp_all

lemma converted_cases:
  assumes "converted c"
  obtains a where "c = [a]" | a b where "c = [a, b]" "isLeadSurrogate a" "isTrailSurrogate b"
proof -
  from assms obtain u where u: "convertCodePoint u = Inr c" by (auto simp: converted_def)
  show ?thesis
  proof (cases "u \<le> 0xFFFF")
    case True
    then have "c = [u]" using convertCodePoint_unit[OF u] by simp
    then show ?thesis using that(1) by blast
  next
    case False
    then show ?thesis using convertCodePoint_pair[OF u] that(2) by auto
  qed
qed

lemma lone_simps [simp]:
  "loneLead [a] = isLeadSurrogate a" "loneLead [a, b] = False"
  "loneTrail [a] = isTrailSurrogate a" "loneTrail [a, b] = False"
  by (simp_all add: loneLead_def loneTrail_def)

lemma arrayFrom_concat_joinHalves:
  assumes "\<forall>c\<in>set cs. converted c"
  shows "arrayFrom (concat cs) = joinHalves cs"
  using assms
proof (induction cs rule: joinHalves.induct)
  case 1
  show ?case by simp
next
  case (2 c)
  then have "converted c" by simp
  then show ?case by (cases rule: converted_cases) simp_all
next
  case (3 c d rest)
  then have cc: "converted c" and cd: "converted d" by simp_all
  have IH1: "arrayFrom (concat rest) = joinHalves rest" if "loneLead c \<and> loneTrail d"
    using 3 that by simp
  have IH2: "arrayFrom (concat (d # rest)) = joinHalves (d # rest)"
    if "\<not> (loneLead c \<and> loneTrail d)"
    using 3 that by simp
  from cc show ?case
  proof (cases rule: converted_cases)
    case (1 a)
    note c = this
    show ?thesis
    proof (cases "isLeadSurrogate a")
      case False
      then show ?thesis using c IH2 by (simp add: arrayFrom_Cons_not_lead)
    next
      case True
      note lead = this
      from cd show ?thesis
      proof (cases rule: converted_cases)
        case (1 b)
        then show ?thesis using c lead IH1 IH2 by (cases "isTrailSurrogate b") simp_all
      next
        case (2 x y)
        then have "\<not> isTrailSurrogate x" by (simp add: not_lead_and_trail)
        then show ?thesis using c 2 IH2 by simp
      qed
    qed
  next
    case (2 a b)
    then show ?thesis using IH2 by simp
  qed
qed

lemma joinHalves_id:
  assumes "(\<forall>c\<in>set cs. \<not> loneLead c) \<or> (\<forall>c\<in>set cs. \<not> loneTrail c)"
  shows "joinHalves cs = cs"
  using assms by (induction cs rule: joinHalves.induct) auto

lemma joinHalves_elements:
  assumes "x \<in> set (joinHalves cs)"
  shows "x \<in> set cs \<or> (\<exists>c\<in>set cs. \<exists>d\<in>set cs. loneLead c \<and> loneTrail d \<and> x = c @ d)"
  using assms by (induction cs rule: joinHalves.induct) (auto split: if_splits)

lemma record_loneLead:
  assumes "convertCodePoint u = Inr c"
  shows "loneLead c \<longleftrightarrow> isLeadSurrogate u"
proof (cases "u \<le> 0xFFFF")
  case True
  then show ?thesis using convertCodePoint_unit[OF assms] by simp
next
  case False
  then obtain a b where "c = [a, b]" using convertCodePoint_pair[OF assms] by auto
  moreover have "\<not> isLeadSurrogate u" using False by (simp add: isLeadSurrogate_def)
  ultimately show ?thesis by simp
qed

lemma record_loneTrail:
  assumes "convertCodePoint u = Inr c"
  shows "loneTrail c \<longleftrightarrow> isTrailSurrogate u"
proof (cases "u \<le> 0xFFFF")
  case True
  then show ?thesis using convertCodePoint_unit[OF assms] by simp
next
  case False
  then obtain a b where "c = [a, b]" using convertCodePoint_pair[OF assms] by auto
  moreover have "\<not> isTrailSurrogate u" using False by (simp add: isTrailSurrogate_def)
  ultimately show ?thesis by simp
qed

text \<open>
  C7, as the code has it. For the character of every record of the inventory,
  \<open>checkCharInFont\<close> answers that it exists, whatever the options. When \<open>outputFormat\<close> is
  \<open>text\<close> or absent, the characters of \<open>extractedText\<close> are the characters of the records
  in their order, except that a record for a lead surrogate directly followed by a
  record for a trail surrogate reads as one character; so every character of
  \<open>extractedText\<close> exists or is such a joined pair. When the inventory does not hold
  both a record for a lead surrogate and a record for a trail surrogate, the characters
  of \<open>extractedText\<close> are exactly the characters of the records and each of them exists;
  with \<open>printableOnly\<close> true (or absent) no record is for a surrogate at all.
\<close>

theorem extracted_characters_exist:
  assumes run: "extractTextFromFont font options = Inr info"
  shows "(\<forall>g\<in>set (glyphs info). exists (checkCharInFont font (char g))) \<and>
         (outputFormat options = None \<or> outputFormat options = Some FormatText \<longrightarrow>
            arrayFrom (extractedText info) = joinHalves (map char (glyphs info)) \<and>
            (\<forall>c\<in>set (arrayFrom (extractedText info)).
               exists (checkCharInFont font c) \<or>
               (\<exists>l\<in>set (glyphs info). \<exists>t\<in>set (glyphs info).
                  isLeadSurrogate (unicode l) \<and> isTrailSurrogate (unicode t) \<and>
                  c = char l @ char t)) \<and>
            ((\<forall>g\<in>set (glyphs info). \<not> isLeadSurrogate (unicode g)) \<or>
             (\<forall>g\<in>set (glyphs info). \<not> isTrailSurrogate (unicode g)) \<longrightarrow>
               arrayFrom (extractedText info) = map char (glyphs info) \<and>
               (\<forall>c\<in>set (arrayFrom (extractedText info)). exists (checkCharInFont font c)))) \<and>
         (printableOnly options \<noteq> Some False \<longrightarrow>
            (\<forall>g\<in>set (glyphs info).
               \<not> isLeadSurrogate (unicode g) \<and> \<not> isTrailSurrogate (unicode g)))"
proof -
  have conv: "convertCodePoint (unicode r) = Inr (char r)" if "r \<in> set (glyphs info)" for r
    using extract_records[OF run that] by simp
  have ex: "exists (checkCharInFont font (char r))" if r: "r \<in> set (glyphs info)" for r
  proof -
    have "codePointAt0 (char r) = Number (unicode r)"
      using conv[OF r] by (simp add: codePointAt0_convert)
    moreover from extract_from_font[OF run r] obtain k where "k < length (font_glyphs font)"
      "glyph_unicode (font_glyphs font ! k) = Some (unicode r)" by blast
    then have "\<exists>g\<in>set (font_glyphs font). glyph_unicode g = Some (unicode r)"
      by (metis nth_mem)
    ultimately show ?thesis
      by (simp add: checkChar_exists findGlyph_exists)
  qed
  have A: "\<forall>g\<in>set (glyphs info). exists (checkCharInFont font (char g))"
    using ex by blast
  have D: "\<forall>g\<in>set (glyphs info).
               \<not> isLeadSurrogate (unicode g) \<and> \<not> isTrailSurrogate (unicode g)"
    if p: "printableOnly options \<noteq> Some False"
  proof
    fix g assume g: "g \<in> set (glyphs info)"
    have "isPrintableChar (char g) (unicode g)"
      using extract_records[OF run g] p by (simp add: excluded_def)
    then have "\<not> (0xD800 \<le> unicode g \<and> unicode g \<le> 0xDFFF)"
      by (rule isPrintableChar_not_surrogate)
    then show "\<not> isLeadSurrogate (unicode g) \<and> \<not> isTrailSurrogate (unicode g)"
      by (auto simp: isLeadSurrogate_def isTrailSurrogate_def)
  qed
  have B: "arrayFrom (extractedText info) = joinHalves (map char (glyphs info)) \<and>
            (\<forall>c\<in>set (arrayFrom (extractedText info)).
               exists (checkCharInFont font c) \<or>
               (\<exists>l\<in>set (glyphs info). \<exists>t\<in>set (glyphs info).
                  isLeadSurrogate (unicode l) \<and> isTrailSurrogate (unicode t) \<and>
                  c = char l @ char t)) \<and>
            ((\<forall>g\<in>set (glyphs info). \<not> isLeadSurrogate (unicode g)) \<or>
             (\<forall>g\<in>set (glyphs info). \<not> isTrailSurrogate (unicode g)) \<longrightarrow>
               arrayFrom (extractedText info) = map char (glyphs info) \<and>
               (\<forall>c\<in>set (arrayFrom (extractedText info)). exists (checkCharInFont font c)))"
    if fmt: "outputFormat options = None \<or> outputFormat options = Some FormatText"
  proof -
    have etext: "extractedText info = concat (map char (glyphs info))"
      using extract_text[OF run] fmt by auto
    have "\<forall>c\<in>set (map char (glyphs info)). converted c"
      using conv by (auto simp: converted_def)
    then have dec: "arrayFrom (extractedText info) = joinHalves (map char (glyphs info))"
      unfolding etext by (rule arrayFrom_concat_joinHalves)
    have el: "exists (checkCharInFont font c) \<or>
               (\<exists>l\<in>set (glyphs info). \<exists>t\<in>set (glyphs info).
                  isLeadSurrogate (unicode l) \<and> isTrailSurrogate (unicode t) \<and>
                  c = char l @ char t)"
      if c: "c \<in> set (arrayFrom (extractedText info))" for c
    proof -
      from c dec have "c \<in> set (joinHalves (map char (glyphs info)))" by simp
      from joinHalves_elements[OF this] show ?thesis
      proof
        assume "c \<in> set (map char (glyphs info))"
        then show ?thesis using ex by auto
      next
        assume "\<exists>x\<in>set (map char (glyphs info)). \<exists>d\<in>set (map char (glyphs info)).
                  loneLead x \<and> loneTrail d \<and> c = x @ d"
        then obtain l t where lt: "l \<in> set (glyphs info)" "t \<in> set (glyphs info)"
          "loneLead (char l)" "loneTrail (char t)" "c = char l @ char t" by auto
        have "isLeadSurrogate (unicode l)"
          using record_loneLead[OF conv[OF lt(1)]] lt(3) by simp
        moreover have "isTrailSurrogate (unicode t)"
          using record_loneTrail[OF conv[OF lt(2)]] lt(4) by simp
        ultimately show ?thesis using lt by blast
      qed
    qed
    have idc: "arrayFrom (extractedText info) = map char (glyphs info) \<and>
               (\<forall>c\<in>set (arrayFrom (extractedText info)). exists (checkCharInFont font c))"
      if h: "(\<forall>g\<in>set (glyphs info). \<not> isLeadSurrogate (unicode g)) \<or>
             (\<forall>g\<in>set (glyphs info). \<not> isTrailSurrogate (unicode g))"
    proof -
      have "(\<forall>c\<in>set (map char (glyphs info)). \<not> loneLead c) \<or>
            (\<forall>c\<in>set (map char (glyphs info)). \<not> loneTrail c)"
        using h record_loneLead[OF conv] record_loneTrail[OF conv] by auto
      then have "joinHalves (map char (glyphs info)) = map char (glyphs info)"
        by (rule joinHalves_id)
      with dec have d: "arrayFrom (extractedText info) = map char (glyphs info)" by simp
      then show ?thesis using ex by auto
    qed
    from dec el idc show ?thesis by blast
  qed
  from A B D show ?thesis by blast
qed

lemmas check_defs = checkCharInFont_def Let_def strictEq_def glyphNameOr_def lit_def
  isLeadSurrogate_def isTrailSurrogate_def

lemma lead_run:
  "extractTextFromFont leadFont (defaultOptions\<lparr>printableOnly := Some False\<rparr>) =
     Inr (demoInfo
       [\<lparr>unicode = 0x41, char = [0x41], name = lit ''A'', hasPath = True\<rparr>,
        \<lparr>unicode = 0xD83D, char = [0xD83D], name = lit ''lead'', hasPath = False\<rparr>]
       [0x41, 0xD83D])"
  by (simp add: run_defs leadFont_def)

theorem extracted_characters_exist_witness:
  "extractTextFromFont leadFont (defaultOptions\<lparr>printableOnly := Some False\<rparr>) =
     Inr (demoInfo
       [\<lparr>unicode = 0x41, char = [0x41], name = lit ''A'', hasPath = True\<rparr>,
        \<lparr>unicode = 0xD83D, char = [0xD83D], name = lit ''lead'', hasPath = False\<rparr>]
       [0x41, 0xD83D]) \<and>
   arrayFrom [0x41, 0xD83D] = [[0x41], [0xD83D]] \<and>
   list_all (\<lambda>c. exists (checkCharInFont leadFont c)) [[0x41], [0xD83D]]"
proof -
  let ?gs = "[\<lparr>unicode = 0x41, char = [0x41], name = lit ''A'', hasPath = True\<rparr>,
        \<lparr>unicode = 0xD83D, char = [0xD83D], name = lit ''lead'', hasPath = False\<rparr>]"
  let ?info = "demoInfo ?gs [0x41, 0xD83D]"
  have fmt: "outputFormat (defaultOptions\<lparr>printableOnly := Some False\<rparr>) = None \<or>
             outputFormat (defaultOptions\<lparr>printableOnly := Some False\<rparr>) = Some FormatText"
    by (simp add: defaultOptions_def)
  have notrail: "(\<forall>g\<in>set (glyphs ?info). \<not> isLeadSurrogate (unicode g)) \<or>
                 (\<forall>g\<in>set (glyphs ?info). \<not> isTrailSurrogate (unicode g))"
    by (simp add: demoInfo_def isTrailSurrogate_def)
  from extracted_characters_exist[OF lead_run] fmt notrail
  have "arrayFrom (extractedText ?info) = map char (glyphs ?info) \<and>
        (\<forall>c\<in>set (arrayFrom (extractedText ?info)). exists (checkCharInFont leadFont c))"
    by blast
  then have "arrayFrom [0x41, 0xD83D] = [[0x41], [0xD83D]] \<and>
        (\<forall>c\<in>set [[0x41], [0xD83D]]. exists (checkCharInFont leadFont c))"
    by (simp add: demoInfo_def)
  with lead_run show ?thesis by (simp add: list_all_iff)
qed

text \<open>
  C7 as stated fails for the format \<open>array\<close>: the opening bracket of the JSON text is a
  character of \<open>extractedText\<close>, and the example font has no glyph for it.
\<close>

theorem coverage_array_counterexample:
  "extractTextFromFont demoFont (defaultOptions\<lparr>outputFormat := Some FormatArray\<rparr>) =
     Inr (demoInfo demoGlyphs demoArrayText) \<and>
   [0x5B] \<in> set (arrayFrom (extractedText (demoInfo demoGlyphs demoArrayText))) \<and>
   exists (checkCharInFont demoFont [0x5B]) = False"
  using demo_run_array
  by (simp add: demoInfo_def demoArrayText_def demoFont_def check_defs)

text \<open>
  The joined pair of C7 at work: with \<open>printableOnly\<close> false, the two records of
  \<open>halvesFont\<close> concatenate to one surrogate pair, which reads back as the one character
  U+1F600, and the font has no glyph for that.
\<close>

lemma halves_run:
  "extractTextFromFont halvesFont (defaultOptions\<lparr>printableOnly := Some False\<rparr>) =
     Inr (demoInfo
       [\<lparr>unicode = 0xD83D, char = [0xD83D], name = lit ''lead'', hasPath = False\<rparr>,
        \<lparr>unicode = 0xDE00, char = [0xDE00], name = lit ''trail'', hasPath = False\<rparr>]
       [0xD83D, 0xDE00])"
  by (simp add: run_defs halvesFont_def)

lemma halves_join:
  "arrayFrom [0xD83D, 0xDE00] = [[0xD83D, 0xDE00]] \<and>
   exists (checkCharInFont halvesFont [0xD83D, 0xDE00]) = False"
  by (simp add: halvesFont_def check_defs)

section \<open>Code points above the Basic Multilingual Plane\<close>

lemma at_most_one_record:
  assumes run: "extractTextFromFont font options = Inr info"
  shows "length (filter (\<lambda>r. unicode r = u) (glyphs info)) \<le> 1"
proof (cases "\<exists>r\<in>set (glyphs info). unicode r = u")
  case True
  then obtain r where r: "r \<in> set (glyphs info)" "unicode r = u" by blast
  from extract_from_font[OF run r(1)] r(2) obtain k where k: "k < length (font_glyphs font)"
    "glyph_unicode (font_glyphs font ! k) = Some u"
    "\<forall>j<k. glyph_unicode (font_glyphs font ! j) \<noteq> Some u" by auto
  have "convertCodePoint u = Inr (char r)"
    and "\<not> excluded (printableOnly options \<noteq> Some False)
             (includeControlChars options = Some True) (filterFn options) (char r) u"
    using extract_records[OF run r(1)] r(2) by auto
  from lowest_index_record[OF run k this] show ?thesis by simp
next
  case False
  then have "filter (\<lambda>r. unicode r = u) (glyphs info) = []"
    by (simp add: filter_empty_conv)
  then show ?thesis by simp
qed

lemma checkText_append_pair:
  assumes "isLeadSurrogate a" and "isTrailSurrogate b"
  shows "chars (checkTextInFont font (s1 @ [a, b] @ s2)) =
           chars (checkTextInFont font s1) @ chars (checkTextInFont font [a, b]) @
           chars (checkTextInFont font s2)"
  using assms by (simp add: checkText_chars arrayFrom_append_pair)

lemma exactly_one_record:
  assumes run: "extractTextFromFont font options = Inr info"
    and conv: "convertCodePoint u = Inr c"
  shows "length (filter (\<lambda>r. unicode r = u) (glyphs info)) =
           (if (\<exists>g\<in>set (font_glyphs font). glyph_unicode g = Some u) \<and>
               \<not> excluded (printableOnly options \<noteq> Some False)
                    (includeControlChars options = Some True) (filterFn options) c u
            then 1 else 0)"
proof (cases "(\<exists>g\<in>set (font_glyphs font). glyph_unicode g = Some u) \<and>
               \<not> excluded (printableOnly options \<noteq> Some False)
                    (includeControlChars options = Some True) (filterFn options) c u")
  case True
  let ?st = "extractLoop (printableOnly options \<noteq> Some False)
           (includeControlChars options = Some True) (filterFn options) 0
           (font_glyphs font) ([], {})"
  from True obtain g where g: "g \<in> set (font_glyphs font)" "glyph_unicode g = Some u" by blast
  from True have incl: "\<not> excluded (printableOnly options \<noteq> Some False)
                    (includeControlChars options = Some True) (filterFn options) c u" by simp
  from extractLoop_covers[OF g conv incl] have "c \<in> snd ?st" .
  moreover have "recordsOk (printableOnly options \<noteq> Some False)
           (includeControlChars options = Some True) (filterFn options) ?st"
    by (rule extract_presort_ok)
  ultimately obtain r where r: "r \<in> set (fst ?st)" "char r = c"
    by (auto simp: recordsOk_def)
  then have rin: "r \<in> set (glyphs info)" by (simp add: presort_set[OF run])
  then have "unicode r = u" using record_char_unicode[OF run conv] r(2) by simp
  with rin have "filter (\<lambda>r. unicode r = u) (glyphs info) \<noteq> []"
    by (auto simp: filter_empty_conv)
  then have "1 \<le> length (filter (\<lambda>r. unicode r = u) (glyphs info))"
    by (cases "filter (\<lambda>r. unicode r = u) (glyphs info)") simp_all
  with at_most_one_record[OF run, of u] True show ?thesis by simp
next
  case False
  have "\<not> unicode r = u" if r: "r \<in> set (glyphs info)" for r
  proof
    assume ru: "unicode r = u"
    from extract_from_font[OF run r] ru obtain k where "k < length (font_glyphs font)"
      "glyph_unicode (font_glyphs font ! k) = Some u" by auto
    then have "\<exists>g\<in>set (font_glyphs font). glyph_unicode g = Some u" by (metis nth_mem)
    moreover have "\<not> excluded (printableOnly options \<noteq> Some False)
                    (includeControlChars options = Some True) (filterFn options) c u"
      using extract_records[OF run r] ru conv by simp
    ultimately show False using False by simp
  qed
  then have "filter (\<lambda>r. unicode r = u) (glyphs info) = []" by (simp add: filter_empty_conv)
  with False show ?thesis by simp
qed

text \<open>
  C6. A code point \<open>u\<close> above 0xFFFF converts to a string \<open>c\<close> of two code units. Wherever
  \<open>c\<close> stands in a string, \<open>checkTextInFont\<close> gives it exactly one entry of \<open>chars\<close>, with
  \<open>char\<close> equal to \<open>c\<close> and \<open>unicode\<close> equal to \<open>u\<close>. In every inventory a record has the
  character \<open>c\<close> exactly when it has the code point \<open>u\<close>, and the number of records with
  the character \<open>c\<close> is one when the font has a glyph for \<open>u\<close> that the filters let
  through, whatever other code points the font has, and zero otherwise: the key of
  the deduplication is the whole of \<open>c\<close>, not a part of it.
\<close>

theorem supplementary_one_character:
  assumes "0xFFFF < u" and "fromCodePoint u = Inr c"
  shows "length c = 2 \<and>
         chars (checkTextInFont font (s1 @ c @ s2)) =
           chars (checkTextInFont font s1) @ chars (checkTextInFont font c) @
           chars (checkTextInFont font s2) \<and>
         map cc_char (chars (checkTextInFont font c)) = [c] \<and>
         map cc_unicode (chars (checkTextInFont font c)) = [Number u] \<and>
         (\<forall>options info. extractTextFromFont font options = Inr info \<longrightarrow>
            length (filter (\<lambda>g. unicode g = u) (glyphs info)) \<le> 1 \<and>
            (\<forall>g\<in>set (glyphs info). (char g = c) = (unicode g = u)) \<and>
            length (filter (\<lambda>g. char g = c) (glyphs info)) =
              (if (\<exists>g\<in>set (font_glyphs font). glyph_unicode g = Some u) \<and>
                  \<not> excluded (printableOnly options \<noteq> Some False)
                       (includeControlChars options = Some True) (filterFn options) c u
               then 1 else 0))"
proof -
  have conv: "convertCodePoint u = Inr c"
    using assms by (simp add: convertCodePoint_def)
  from convertCodePoint_pair[OF conv assms(1)] obtain a b where
    ab: "c = [a, b]" "isLeadSurrogate a" "isTrailSurrogate b" by blast
  have 1: "length c = 2" using ab by simp
  have 2: "chars (checkTextInFont font (s1 @ c @ s2)) =
           chars (checkTextInFont font s1) @ chars (checkTextInFont font c) @
           chars (checkTextInFont font s2)"
    unfolding ab(1) using ab(2,3) by (rule checkText_append_pair)
  have arr: "arrayFrom c = [c]" using conv by (rule arrayFrom_convert)
  have 3: "map cc_char (chars (checkTextInFont font c)) = [c]"
    by (simp add: checkText_chars arr)
  have 4: "map cc_unicode (chars (checkTextInFont font c)) = [Number u]"
    by (simp add: checkText_chars arr codePointAt0_convert[OF conv])
  have 5: "length (filter (\<lambda>g. unicode g = u) (glyphs info)) \<le> 1 \<and>
            (\<forall>g\<in>set (glyphs info). (char g = c) = (unicode g = u)) \<and>
            length (filter (\<lambda>g. char g = c) (glyphs info)) =
              (if (\<exists>g\<in>set (font_glyphs font). glyph_unicode g = Some u) \<and>
                  \<not> excluded (printableOnly options \<noteq> Some False)
                       (includeControlChars options = Some True) (filterFn options) c u
               then 1 else 0)"
    if run: "extractTextFromFont font options = Inr info" for options info
  proof -
    have eq: "\<forall>g\<in>set (glyphs info). (char g = c) = (unicode g = u)"
      using record_char_unicode[OF run conv] by blast
    then have "filter (\<lambda>g. char g = c) (glyphs info) = filter (\<lambda>g. unicode g = u) (glyphs info)"
      by (intro filter_cong) auto
    then show ?thesis
      using at_most_one_record[OF run, of u] eq exactly_one_record[OF run conv] by simp
  qed
  from 1 2 3 4 5 show ?thesis by blast
qed

lemma planeTwo_run:
  "extractTextFromFont planeTwoFont defaultOptions =
     Inr (demoInfo
       [\<lparr>unicode = 0x20000, char = [0xD840, 0xDC00], name = lit ''u20000'', hasPath = False\<rparr>,
        \<lparr>unicode = 0x20001, char = [0xD840, 0xDC01], name = lit ''u20001'', hasPath = False\<rparr>]
       [0xD840, 0xDC00, 0xD840, 0xDC01])"
  by (simp add: run_defs planeTwoFont_def)

theorem supplementary_one_character_witness:
  "fromCodePoint 0x20001 = Inr [0xD840, 0xDC01] \<and>
   map cc_unicode (chars (checkTextInFont planeTwoFont ([0x41] @ [0xD840, 0xDC01] @ [0x58]))) =
     [Number 0x41, Number 0x20001, Number 0x58] \<and>
   map cc_char (chars (checkTextInFont planeTwoFont [0xD840, 0xDC01])) = [[0xD840, 0xDC01]] \<and>
   extractTextFromFont planeTwoFont defaultOptions =
     Inr (demoInfo
       [\<lparr>unicode = 0x20000, char = [0xD840, 0xDC00], name = lit ''u20000'', hasPath = False\<rparr>,
        \<lparr>unicode = 0x20001, char = [0xD840, 0xDC01], name = lit ''u20001'', hasPath = False\<rparr>]
       [0xD840, 0xDC00, 0xD840, 0xDC01]) \<and>
   length (filter (\<lambda>g. char g = [0xD840, 0xDC01])
       [\<lparr>unicode = 0x20000, char = [0xD840, 0xDC00], name = lit ''u20000'', hasPath = False\<rparr>,
        \<lparr>unicode = 0x20001, char = [0xD840, 0xDC01], name = lit ''u20001'', hasPath = False\<rparr>]) = 1"
proof -
  have u: "(0xFFFF::nat) < 0x20001" by simp
  have c: "fromCodePoint 0x20001 = Inr [0xD840, 0xDC01]" by (simp add: fromCodePoint_def)
  have one: "map cc_unicode (chars (checkTextInFont planeTwoFont [0x41])) = [Number 0x41]"
    "map cc_unicode (chars (checkTextInFont planeTwoFont [0x58])) = [Number 0x58]"
    by (simp_all add: checkText_chars)
  from supplementary_one_character[OF u c, of planeTwoFont "[0x41]" "[0x58]"] c one planeTwo_run
  show ?thesis by simp
qed

section \<open>The printable-character test\<close>

text \<open>The test as one disjunction: the ranges in the order of the source, then the
  fallback, which looks at \<open>String.fromCharCode(unicode)\<close>.\<close>

lemma if_True_disj: "(if a then True else b) \<longleftrightarrow> a \<or> b"
  by simp

lemma if_False_conj: "(if a then b else False) \<longleftrightarrow> a \<and> b"
  by simp

lemma isPrintableChar_iff:
  "isPrintableChar ch u \<longleftrightarrow>
     (0x20 \<le> u \<and> u \<le> 0x7E) \<or> (0xA0 \<le> u \<and> u \<le> 0xFF) \<or> (0x4E00 \<le> u \<and> u \<le> 0x9FFF) \<or>
     (0x3400 \<le> u \<and> u \<le> 0x4DBF) \<or> (0x20000 \<le> u \<and> u \<le> 0x2A6DF) \<or>
     (0x100 \<le> u \<and> u \<le> 0x17F) \<or> (0x180 \<le> u \<and> u \<le> 0x24F) \<or>
     (0x370 \<le> u \<and> u \<le> 0x3FF) \<or> (0x400 \<le> u \<and> u \<le> 0x4FF) \<or>
     (0x3040 \<le> u \<and> u \<le> 0x309F) \<or> (0x30A0 \<le> u \<and> u \<le> 0x30FF) \<or>
     (0xAC00 \<le> u \<and> u \<le> 0xD7AF) \<or> (0x1F300 \<le> u \<and> u \<le> 0x1F9FF) \<or>
     (0x1F < u \<and> \<not> (0xD800 \<le> u \<and> u \<le> 0xDFFF) \<and>
        (trim (fromCharCode u) \<noteq> [] \<or> u = 0x20))"
  by (simp only: isPrintableChar_def Let_def if_True_disj if_False_conj conj_assoc simp_thms)

text \<open>Up to 0xFFFF the string that the fallback trims is the character of the code
  point itself.\<close>

lemma isPrintableChar_bmp:
  assumes "u \<le> 0xFFFF" and "convertCodePoint u = Inr ch"
  shows "isPrintableChar ch u \<longleftrightarrow>
     (0x20 \<le> u \<and> u \<le> 0x7E) \<or> (0xA0 \<le> u \<and> u \<le> 0xFF) \<or> (0x4E00 \<le> u \<and> u \<le> 0x9FFF) \<or>
     (0x3400 \<le> u \<and> u \<le> 0x4DBF) \<or> (0x20000 \<le> u \<and> u \<le> 0x2A6DF) \<or>
     (0x100 \<le> u \<and> u \<le> 0x17F) \<or> (0x180 \<le> u \<and> u \<le> 0x24F) \<or>
     (0x370 \<le> u \<and> u \<le> 0x3FF) \<or> (0x400 \<le> u \<and> u \<le> 0x4FF) \<or>
     (0x3040 \<le> u \<and> u \<le> 0x309F) \<or> (0x30A0 \<le> u \<and> u \<le> 0x30FF) \<or>
     (0xAC00 \<le> u \<and> u \<le> 0xD7AF) \<or> (0x1F300 \<le> u \<and> u \<le> 0x1F9FF) \<or>
     (0x1F < u \<and> \<not> (0xD800 \<le> u \<and> u \<le> 0xDFFF) \<and> (trim ch \<noteq> [] \<or> u = 0x20))"
proof -
  have "fromCharCode u = ch" using assms by (simp add: convertCodePoint_def)
  then show ?thesis by (simp only: isPrintableChar_iff)
qed

text \<open>
  C2 at the code point U+13000. Its character is a surrogate pair, which \<open>trim\<close> leaves as
  it is; it lies in none of the ranges. The fallback converts it with
  \<open>String.fromCharCode\<close>, which keeps the low 16 bits, gets the ideographic space U+3000,
  and answers that U+13000 is not printable; with the default options the glyph of a
  font for U+13000 is left out of the inventory.
\<close>

theorem isPrintableChar_truncates_supplementary:
  "convertCodePoint 0x13000 = Inr [0xD80C, 0xDC00] \<and>
   trim [0xD80C, 0xDC00] \<noteq> [] \<and>
   fromCharCode 0x13000 = [0x3000] \<and> trim [0x3000] = [] \<and>
   isPrintableChar [0xD80C, 0xDC00] 0x13000 = False \<and>
   extractTextFromFont hieroglyphFont defaultOptions = Inr (demoInfo [] [])"
  by (simp add: run_defs hieroglyphFont_def trim_def)

theorem isPrintableChar_truncates_supplementary_witness:
  "isPrintableChar [0xD80C, 0xDC00] 0x13000 = False \<and>
   extractTextFromFont hieroglyphFont defaultOptions = Inr (demoInfo [] [])"
  using isPrintableChar_truncates_supplementary by simp

end
